theory Spec2Isabelle
  imports Main "HOL-Library.Sublist"
begin

section \<open>Tokens\<close>

text \<open>
  The module \<^verbatim>\<open>indicatorToJs.ts\<close> translates indicator formulas into JavaScript.
  JavaScript strings are modelled by \<^typ>\<open>string\<close>; a \<^typ>\<open>char\<close> stands for one
  code unit below 256.  Code units above that range behave like any other
  unrecognized character outside string literals, except for the Unicode
  white space that \<^verbatim>\<open>trim\<close> and \<^verbatim>\<open>\s\<close> also accept.
\<close>

datatype TokenType =
    END | LParen | RParen | LBracket | RBracket | Comma
  | Plus | Minus | Mul | Div | Less | LessOrEq | Greater | GreaterOrEq
  | Equal | NotEqual | Not | String | Number | Indent | Name

text \<open>The numeric value of an enum member, used by the range checks of the source.\<close>

fun enumValue :: "TokenType \<Rightarrow> nat" where
  "enumValue END = 0"
| "enumValue LParen = 1"
| "enumValue RParen = 2"
| "enumValue LBracket = 3"
| "enumValue RBracket = 4"
| "enumValue Comma = 5"
| "enumValue Plus = 6"
| "enumValue Minus = 7"
| "enumValue Mul = 8"
| "enumValue Div = 9"
| "enumValue Less = 10"
| "enumValue LessOrEq = 11"
| "enumValue Greater = 12"
| "enumValue GreaterOrEq = 13"
| "enumValue Equal = 14"
| "enumValue NotEqual = 15"
| "enumValue Not = 16"
| "enumValue String = 17"
| "enumValue Number = 18"
| "enumValue Indent = 19"
| "enumValue Name = 20"

record Token =
  type :: TokenType
  "text" :: string

definition mkToken :: "TokenType \<Rightarrow> string \<Rightarrow> Token" where
  "mkToken ty tx = \<lparr>type = ty, text = tx\<rparr>"

text \<open>
  Every \<^verbatim>\<open>new Error(...)\<close> of the source is one constructor, carrying the variable
  part of its message.  \<open>TypeError\<close> is the exception the JavaScript runtime raises
  when a property of \<^verbatim>\<open>undefined\<close> is read, which is what happens when a token is
  popped or peeked from an empty array and its \<^verbatim>\<open>type\<close> is inspected.
\<close>

datatype error =
    InvalidFieldName string
  | UnterminatedString string
  | Impossible
  | LeadingWhitespace
  | UnrecognizedToken string
  | UnexpectedEnd
  | UnexpectedToken string
  | InvalidExpectedEnd
  | UnsupportedFunction string
  | TypeError

section \<open>Character classes and regular expressions of the tokenizer\<close>

definition charCode :: "char \<Rightarrow> nat" where
  "charCode c = of_char c"

text \<open>\<^verbatim>\<open>\d\<close>, also the test \<^verbatim>\<open>c >= '0' && c <= '9'\<close>.\<close>

definition isDigit :: "char \<Rightarrow> bool" where
  "isDigit c = (48 \<le> charCode c \<and> charCode c \<le> 57)"

text \<open>\<^verbatim>\<open>[a-zA-Z_]\<close>\<close>

definition isIdentStart :: "char \<Rightarrow> bool" where
  "isIdentStart c =
     ((97 \<le> charCode c \<and> charCode c \<le> 122) \<or> (65 \<le> charCode c \<and> charCode c \<le> 90) \<or> charCode c = 95)"

text \<open>\<^verbatim>\<open>\w\<close>\<close>

definition isWord :: "char \<Rightarrow> bool" where
  "isWord c = (isIdentStart c \<or> isDigit c)"

text \<open>
  \<^verbatim>\<open>\s\<close> and the characters removed by \<^verbatim>\<open>trim\<close>: tab, line feed, vertical tab,
  form feed, carriage return, space and no-break space.
\<close>

definition isSpace :: "char \<Rightarrow> bool" where
  "isSpace c = (charCode c \<in> {9, 10, 11, 12, 13, 32, 160})"

definition trim :: "string \<Rightarrow> string" where
  "trim s = rev (dropWhile isSpace (rev (dropWhile isSpace s)))"

text \<open>\<^verbatim>\<open>/^[a-zA-Z_]\w*/\<close>\<close>

fun matchIdent :: "string \<Rightarrow> string option" where
  "matchIdent [] = None"
| "matchIdent (c # cs) = (if isIdentStart c then Some (c # takeWhile isWord cs) else None)"

text \<open>\<^verbatim>\<open>/^\$[a-zA-Z_]\w*/\<close>\<close>

fun matchName :: "string \<Rightarrow> string option" where
  "matchName [] = None"
| "matchName (d # s) =
     (if d = CHR ''$'' then map_option (\<lambda>m. d # m) (matchIdent s) else None)"

text \<open>
  \<^verbatim>\<open>(\\\\|\\"|[^"])*"\<close>: the body of a string literal and its closing quote.  The
  alternatives are tried in order, each followed by the rest of the star; when none
  leads to a match the star stops and the closing quote is required.
\<close>

fun matchStringBody :: "string \<Rightarrow> string option" where
  "matchStringBody [] = None"
| "matchStringBody (c # cs) =
     (case (if c = CHR 0x5C
            then (case cs of
                    [] \<Rightarrow> None
                  | d # ds \<Rightarrow>
                      if d = CHR 0x5C \<or> d = CHR 0x22
                      then map_option (\<lambda>m. c # d # m) (matchStringBody ds)
                      else None)
            else None) of
        Some m \<Rightarrow> Some m
      | None \<Rightarrow>
          (case (if c \<noteq> CHR 0x22 then map_option (\<lambda>m. c # m) (matchStringBody cs) else None) of
             Some m \<Rightarrow> Some m
           | None \<Rightarrow> if c = CHR 0x22 then Some [c] else None))"

text \<open>\<^verbatim>\<open>/^"(\\\\|\\"|[^"])*"/\<close>\<close>

fun matchString :: "string \<Rightarrow> string option" where
  "matchString [] = None"
| "matchString (q # s) =
     (if q = CHR 0x22 then map_option (\<lambda>m. q # m) (matchStringBody s) else None)"

text \<open>\<^verbatim>\<open>(\.\d+)?\<close>\<close>

fun matchFraction :: "string \<Rightarrow> string" where
  "matchFraction [] = []"
| "matchFraction (c # cs) =
     (if c = CHR ''.'' \<and> takeWhile isDigit cs \<noteq> [] then c # takeWhile isDigit cs else [])"

text \<open>\<^verbatim>\<open>[\+\-]?\d+\<close>, empty when there is no match.\<close>

fun matchSignedDigits :: "string \<Rightarrow> string" where
  "matchSignedDigits [] = []"
| "matchSignedDigits (c # cs) =
     (if c = CHR ''+'' \<or> c = CHR ''-''
      then (if takeWhile isDigit cs \<noteq> [] then c # takeWhile isDigit cs else [])
      else takeWhile isDigit (c # cs))"

text \<open>\<^verbatim>\<open>([eE][\+\-]?\d+)?\<close>\<close>

fun matchExponent :: "string \<Rightarrow> string" where
  "matchExponent [] = []"
| "matchExponent (c # cs) =
     (if (c = CHR ''e'' \<or> c = CHR ''E'') \<and> matchSignedDigits cs \<noteq> []
      then c # matchSignedDigits cs else [])"

text \<open>\<^verbatim>\<open>/^\d+(\.\d+)?([eE][\+\-]?\d+)?/\<close>\<close>

definition matchNumber :: "string \<Rightarrow> string option" where
  "matchNumber s =
     (let ds = takeWhile isDigit s;
          fr = matchFraction (drop (length ds) s);
          ex = matchExponent (drop (length ds + length fr) s)
      in if ds = [] then None else Some (ds @ fr @ ex))"

section \<open>The tokenizer\<close>

text \<open>\<^verbatim>\<open>s.length > 1 && s.charAt(1) === '='\<close>\<close>

definition followedByEq :: "string \<Rightarrow> bool" where
  "followedByEq s = (length s > 1 \<and> s ! 1 = CHR ''='')"

definition firstToken :: "string \<Rightarrow> error + Token" where
  "firstToken s =
     (if length s = 0 then Inr (mkToken END [])
      else let c = hd s in
        if c = CHR ''('' then Inr (mkToken LParen ''('')
        else if c = CHR '')'' then Inr (mkToken RParen '')'')
        else if c = CHR ''['' then Inr (mkToken LBracket ''['')
        else if c = CHR '']'' then Inr (mkToken RBracket '']'')
        else if c = CHR '','' then Inr (mkToken Comma '','')
        else if c = CHR ''+'' then Inr (mkToken Plus ''+'')
        else if c = CHR ''-'' then Inr (mkToken Minus ''-'')
        else if c = CHR ''*'' then Inr (mkToken Mul ''*'')
        else if c = CHR ''/'' then Inr (mkToken Div ''/'')
        else if c = CHR ''<'' then
          (if followedByEq s then Inr (mkToken LessOrEq ''<='') else Inr (mkToken Less ''<''))
        else if c = CHR ''>'' then
          (if followedByEq s then Inr (mkToken GreaterOrEq ''>='') else Inr (mkToken Greater ''>''))
        else if c = CHR ''='' then Inr (mkToken Equal ''='')
        else if c = CHR ''!'' then
          (if followedByEq s then Inr (mkToken NotEqual ''!='') else Inr (mkToken Not ''!''))
        else if c = CHR ''$'' then
          (case matchName s of
             None \<Rightarrow> Inl (InvalidFieldName s)
           | Some m \<Rightarrow> Inr (mkToken Name m))
        else if c = CHR 0x22 then
          (case matchString s of
             None \<Rightarrow> Inl (UnterminatedString s)
           | Some m \<Rightarrow> Inr (mkToken String m))
        else if isDigit c then
          (case matchNumber s of
             None \<Rightarrow> Inl Impossible
           | Some m \<Rightarrow> Inr (mkToken Number m))
        else
          (case matchIdent s of
             Some m \<Rightarrow> Inr (mkToken Indent m)
           | None \<Rightarrow>
               if isSpace (hd s) then Inl LeadingWhitespace
               else Inl (UnrecognizedToken s)))"

lemma prefix_matchIdent: "matchIdent s = Some m \<Longrightarrow> prefix m s \<and> m \<noteq> []"
  by (cases s) (auto split: if_splits simp: takeWhile_is_prefix)

lemma prefix_matchName: "matchName s = Some m \<Longrightarrow> prefix m s \<and> m \<noteq> []"
  by (cases s) (auto split: if_splits dest: prefix_matchIdent)

lemma prefix_matchStringBody: "matchStringBody s = Some m \<Longrightarrow> prefix m s \<and> m \<noteq> []"
proof (induction s arbitrary: m rule: matchStringBody.induct)
  case 1
  then show ?case by simp
next
  case (2 c cs)
  show ?case
  proof (cases "c = CHR 0x22")
    case True
    with "2.prems" show ?thesis by auto
  next
    case nq: False
    show ?thesis
    proof (cases "\<exists>d ds. cs = d # ds \<and> c = CHR 0x5C \<and> (d = CHR 0x5C \<or> d = CHR 0x22)
                    \<and> matchStringBody ds \<noteq> None")
      case True
      then obtain d ds m' where cs: "cs = d # ds" and c: "c = CHR 0x5C"
        and d: "d = CHR 0x5C \<or> d = CHR 0x22" and m': "matchStringBody ds = Some m'"
        by auto
      from "2.prems" cs c d m' have "m = c # d # m'" by auto
      moreover from "2.IH"(1) [OF c cs d m'] have "prefix m' ds" by simp
      ultimately show ?thesis using cs by simp
    next
      case False
      then have first: "(if c = CHR 0x5C
            then (case cs of
                    [] \<Rightarrow> None
                  | d # ds \<Rightarrow>
                      if d = CHR 0x5C \<or> d = CHR 0x22
                      then map_option (\<lambda>m. c # d # m) (matchStringBody ds)
                      else None)
            else None) = None"
        by (auto split: list.splits)
      with "2.prems" nq obtain m' where m': "matchStringBody cs = Some m'" and m: "m = c # m'"
        by (auto split: option.splits)
      from "2.IH"(2) [OF first nq m'] have "prefix m' cs" by simp
      with m show ?thesis by simp
    qed
  qed
qed

lemma prefix_matchString: "matchString s = Some m \<Longrightarrow> prefix m s \<and> m \<noteq> []"
  by (cases s) (auto split: if_splits dest: prefix_matchStringBody)

lemma prefix_drop_append:
  "prefix b (drop (length a) s) \<Longrightarrow> prefix a s \<Longrightarrow> prefix (a @ b) s"
  by (auto simp: prefix_def)

lemma prefix_matchFraction: "prefix (matchFraction s) s"
  by (cases s) (auto simp: takeWhile_is_prefix)

lemma prefix_matchSignedDigits: "prefix (matchSignedDigits s) s"
  by (cases s) (auto simp: takeWhile_is_prefix)

lemma prefix_matchExponent: "prefix (matchExponent s) s"
  using prefix_matchSignedDigits by (cases s) auto

lemma prefix_matchNumber: "matchNumber s = Some m \<Longrightarrow> prefix m s \<and> m \<noteq> []"
proof -
  assume a: "matchNumber s = Some m"
  let ?ds = "takeWhile isDigit s"
  let ?fr = "matchFraction (drop (length ?ds) s)"
  let ?ex = "matchExponent (drop (length ?ds + length ?fr) s)"
  from a have ne: "?ds \<noteq> []" and m: "m = ?ds @ ?fr @ ?ex"
    by (auto simp: matchNumber_def Let_def split: if_splits)
  have "prefix (?ds @ ?fr) s"
    by (rule prefix_drop_append) (simp_all add: prefix_matchFraction takeWhile_is_prefix)
  moreover have "prefix ?ex (drop (length (?ds @ ?fr)) s)"
    using prefix_matchExponent [of "drop (length ?ds + length ?fr) s"] by simp
  ultimately have "prefix ((?ds @ ?fr) @ ?ex) s"
    by (rule prefix_drop_append [rotated])
  with m ne show ?thesis by simp
qed

lemma length_trim: "length (trim s) \<le> length s"
proof -
  have "length (trim s) \<le> length (dropWhile isSpace s)"
    unfolding trim_def by (simp add: length_dropWhile_le) (metis length_dropWhile_le length_rev)
  also have "\<dots> \<le> length s" by (rule length_dropWhile_le)
  finally show ?thesis .
qed

lemma firstToken_text:
  assumes "firstToken s = Inr t"
  shows "prefix (text t) s \<and> (type t = END \<longleftrightarrow> text t = []) \<and> (type t = END \<longleftrightarrow> s = [])"
proof (cases s)
  case Nil
  with assms show ?thesis by (auto simp: firstToken_def mkToken_def)
next
  case (Cons c cs)
  with assms show ?thesis
    by (cases cs)
       (auto simp: firstToken_def mkToken_def Let_def followedByEq_def
             simp del: matchIdent.simps matchName.simps matchString.simps
             split: if_splits option.splits
             dest!: prefix_matchIdent prefix_matchName prefix_matchString prefix_matchNumber)
qed

function tokenize_loop :: "string \<Rightarrow> Token list \<Rightarrow> error + Token list" where
  "tokenize_loop s toks =
     (case firstToken (trim s) of
        Inl e \<Rightarrow> Inl e
      | Inr t \<Rightarrow>
          if type t = END then Inr (toks @ [t])
          else tokenize_loop (drop (length (text t)) (trim s)) (toks @ [t]))"
  by pat_completeness auto
termination
proof (relation "measure (\<lambda>(s, toks). length s)")
  show "wf (measure (\<lambda>(s, toks). length s))" by simp
next
  fix s :: string and toks :: "Token list" and t
  assume t: "firstToken (trim s) = Inr t" and ne: "type t \<noteq> END"
  from firstToken_text [OF t] ne have "text t \<noteq> []" and "trim s \<noteq> []" by auto
  then have "length (drop (length (text t)) (trim s)) < length (trim s)" by simp
  with length_trim [of s]
  show "((drop (length (text t)) (trim s), toks @ [t]), (s, toks)) \<in> measure (\<lambda>(s, toks). length s)"
    by simp
qed

definition tokenize :: "string \<Rightarrow> error + Token list" where
  "tokenize s = tokenize_loop s []"


declare tokenize_loop.simps [simp del]

lemma sublist_trim: "sublist (trim s) s"
proof -
  have "sublist (rev (trim s)) (rev (dropWhile isSpace s))"
    unfolding trim_def by (simp add: suffix_dropWhile)
  then have "sublist (trim s) (dropWhile isSpace s)"
    by (simp only: sublist_rev)
  moreover have "sublist (dropWhile isSpace s) s"
    by (simp add: suffix_dropWhile)
  ultimately show ?thesis by (rule sublist_order.order_trans)
qed

lemma tokenize_loop_shape:
  "tokenize_loop s acc = Inr toks \<Longrightarrow>
     \<exists>ts e. toks = acc @ ts @ [e] \<and> type e = END \<and> text e = [] \<and>
       (\<forall>t\<in>set ts. type t \<noteq> END \<and> text t \<noteq> [] \<and> sublist (text t) s)"
proof (induction s acc arbitrary: toks rule: tokenize_loop.induct)
  case (1 s acc)
  from "1.prems" obtain t where t: "firstToken (trim s) = Inr t"
    by (subst (asm) tokenize_loop.simps) (auto split: sum.splits)
  note ft = firstToken_text [OF t]
  show ?case
  proof (cases "type t = END")
    case True
    with "1.prems" t have "toks = acc @ [] @ [t]"
      by (subst (asm) tokenize_loop.simps) simp
    with True ft show ?thesis by fastforce
  next
    case False
    let ?s' = "drop (length (text t)) (trim s)"
    from "1.prems" t False have "tokenize_loop ?s' (acc @ [t]) = Inr toks"
      by (subst (asm) tokenize_loop.simps) simp
    from "1.IH" [OF t False this] obtain ts e where
      toks: "toks = (acc @ [t]) @ ts @ [e]" and e: "type e = END" "text e = []" and
      ts: "\<forall>u\<in>set ts. type u \<noteq> END \<and> text u \<noteq> [] \<and> sublist (text u) ?s'"
      by blast
    have sub: "sublist ?s' s"
      using sublist_trim sublist_drop sublist_order.order_trans by blast
    have "sublist (text t) s"
      using ft sublist_trim prefix_imp_sublist sublist_order.order_trans by blast
    with ts sub False ft have
      "\<forall>u\<in>set (t # ts). type u \<noteq> END \<and> text u \<noteq> [] \<and> sublist (text u) s"
      using sublist_order.order_trans by auto
    with toks e show ?thesis
      by (intro exI [of _ "t # ts"] exI [of _ e]) simp
  qed
qed

section \<open>The token stack of the parser\<close>

text \<open>
  \<open>revToks\<close> is the reversed token array: the next token is its last element.
  \<open>pop\<close> is \<^verbatim>\<open>revToks.pop()\<close> and \<open>peek\<close> is \<^verbatim>\<open>revToks[revToks.length-1]\<close>; both give
  \<open>None\<close> for \<^verbatim>\<open>undefined\<close>, on an empty array.
\<close>

definition pop :: "Token list \<Rightarrow> (Token \<times> Token list) option" where
  "pop revToks = (if revToks = [] then None else Some (last revToks, butlast revToks))"

definition peek :: "Token list \<Rightarrow> Token option" where
  "peek revToks = (if revToks = [] then None else Some (last revToks))"

lemma pop_snoc [simp]: "pop (ts @ [t]) = Some (t, ts)"
  by (simp add: pop_def)

lemma peek_snoc [simp]: "peek (ts @ [t]) = Some t"
  by (simp add: peek_def)

lemma pop_append_Cons [simp]:
  "pop (ts @ x # xs) = Some (last (x # xs), ts @ butlast (x # xs))"
  by (simp add: pop_def butlast_append)

lemma peek_append_Cons [simp]: "peek (ts @ x # xs) = Some (last (x # xs))"
  by (simp add: peek_def)

lemma pop_Cons [simp]: "pop (x # xs) = Some (last (x # xs), butlast (x # xs))"
  by (simp add: pop_def)

lemma peek_Cons [simp]: "peek (x # xs) = Some (last (x # xs))"
  by (simp add: peek_def)

lemma pop_Nil [simp]: "pop [] = None"
  by (simp add: pop_def)

lemma peek_Nil [simp]: "peek [] = None"
  by (simp add: peek_def)

lemma pop_SomeD: "pop revToks = Some (tok, rest) \<Longrightarrow> revToks = rest @ [tok]"
  by (auto simp: pop_def split: if_splits)


lemma pop_length: "pop revToks = Some (tok, rest) \<Longrightarrow> length rest < length revToks"
  by (auto dest: pop_SomeD)

section \<open>Error reporting\<close>

function printTokens_loop :: "Token list \<Rightarrow> string \<Rightarrow> string" where
  "printTokens_loop revToks s =
     (case pop revToks of
        None \<Rightarrow> s
      | Some (tok, rest) \<Rightarrow>
          if enumValue Plus \<le> enumValue (type tok) \<and> enumValue (type tok) \<le> enumValue NotEqual
          then printTokens_loop rest (s @ '' '' @ text tok @ '' '')
          else if type tok = Comma
          then printTokens_loop rest (s @ '', '')
          else printTokens_loop rest (s @ text tok))"
  by pat_completeness auto
termination
  by (relation "measure (\<lambda>(revToks, s). length revToks)") (auto dest: pop_length)

declare printTokens_loop.simps [simp del]

definition printTokens :: "Token list \<Rightarrow> string" where
  "printTokens revToks = printTokens_loop revToks []"

definition unexpectedTokenError :: "Token \<Rightarrow> Token list \<Rightarrow> error" where
  "unexpectedTokenError tok rest =
     (if type tok = END then UnexpectedEnd
      else UnexpectedToken (printTokens (rest @ [tok])))"

definition consume :: "Token list \<Rightarrow> TokenType \<Rightarrow> error + (Token \<times> Token list)" where
  "consume revToks expectedType =
     (case pop revToks of
        None \<Rightarrow> Inl TypeError
      | Some (tok, rest) \<Rightarrow>
          if type tok \<noteq> expectedType then Inl (unexpectedTokenError tok rest)
          else Inr (tok, rest))"

lemma consume_length: "consume revToks ty = Inr (tok, rest) \<Longrightarrow> length rest < length revToks"
  by (auto simp: consume_def split: option.splits if_splits dest: pop_length)

section \<open>The parser\<close>

text \<open>
  Every function returns the translation together with the tokens left in \<open>revToks\<close>.
  The \<^verbatim>\<open>while (true)\<close> loop of \<open>parseExpression\<close> is \<open>parseExpression_loop\<close>, which
  starts an iteration at the comment \<^verbatim>\<open>// Expression.\<close>; the rest of the iteration,
  from \<^verbatim>\<open>// Possible end of expression.\<close> on, is \<open>parseExpression_end\<close>.  The loop of
  \<open>parseList\<close> is \<open>parseList_loop\<close>.
\<close>

type_synonym parsed = "error + (string \<times> Token list)"

function parseExpression :: "Token list \<Rightarrow> TokenType \<Rightarrow> parsed"
  and parseExpression_loop :: "Token list \<Rightarrow> TokenType \<Rightarrow> string \<Rightarrow> parsed"
  and parseExpression_end :: "Token list \<Rightarrow> TokenType \<Rightarrow> string \<Rightarrow> parsed"
  and parseList :: "Token list \<Rightarrow> TokenType \<Rightarrow> parsed"
  and parseList_loop :: "Token list \<Rightarrow> TokenType \<Rightarrow> string \<Rightarrow> parsed"
  and parseFunctionCall :: "string \<Rightarrow> Token list \<Rightarrow> parsed"
  and parseCountForms :: "Token list \<Rightarrow> parsed"
where
  "parseExpression revToks expectedEnd =
     (if expectedEnd \<noteq> END \<and> expectedEnd \<noteq> RParen \<and>
         expectedEnd \<noteq> Comma \<and> expectedEnd \<noteq> RBracket
      then Inl InvalidExpectedEnd
      else parseExpression_loop revToks expectedEnd [])"
| "parseExpression_loop revToks expectedEnd js =
     (case pop revToks of
        None \<Rightarrow> Inl TypeError
      | Some (tok, revToks1) \<Rightarrow>
          if type tok = Indent then
            (case peek revToks1 of
               None \<Rightarrow> Inl TypeError
             | Some next \<Rightarrow>
                 if type next = LParen then
                   (case parseFunctionCall (text tok) revToks1 of
                      Inl e \<Rightarrow> Inl e
                    | Inr (call, revToks2) \<Rightarrow>
                        parseExpression_end revToks2 expectedEnd (js @ call))
                 else parseExpression_end revToks1 expectedEnd (js @ text tok))
          else if type tok = Name then
            parseExpression_end revToks1 expectedEnd (js @ ''**'' @ drop 1 (text tok) @ ''**'')
          else if type tok = String \<or> type tok = Number then
            parseExpression_end revToks1 expectedEnd (js @ text tok)
          else if type tok = Plus \<or> type tok = Minus then
            (case peek revToks1 of
               None \<Rightarrow> Inl TypeError
             | Some next \<Rightarrow>
                 if type next = Plus \<or> type next = Minus then
                   (case pop revToks1 of
                      None \<Rightarrow> Inl TypeError
                    | Some (sign, revToks2) \<Rightarrow> Inl (unexpectedTokenError sign revToks2))
                 else parseExpression_loop revToks1 expectedEnd (js @ text tok))
          else if type tok = Not then
            parseExpression_loop revToks1 expectedEnd (js @ ''!'')
          else if type tok = LParen then
            (case parseExpression revToks1 RParen of
               Inl e \<Rightarrow> Inl e
             | Inr (inner, revToks2) \<Rightarrow>
                 (case consume revToks2 RParen of
                    Inl e \<Rightarrow> Inl e
                  | Inr (closing, revToks3) \<Rightarrow>
                      parseExpression_end revToks3 expectedEnd (js @ ''('' @ inner @ '')'')))
          else if type tok = LBracket then
            (case parseList revToks1 RBracket of
               Inl e \<Rightarrow> Inl e
             | Inr (inner, revToks2) \<Rightarrow>
                 (case consume revToks2 RBracket of
                    Inl e \<Rightarrow> Inl e
                  | Inr (closing, revToks3) \<Rightarrow>
                      parseExpression_end revToks3 expectedEnd (js @ ''['' @ inner @ '']'')))
          else Inl (unexpectedTokenError tok revToks1))"
| "parseExpression_end revToks expectedEnd js =
     (case peek revToks of
        None \<Rightarrow> Inl TypeError
      | Some next \<Rightarrow>
          if type next = expectedEnd \<or>
             expectedEnd = Comma \<and> type next = RParen \<or>
             expectedEnd = RBracket \<and> type next = Comma
          then Inr (js, revToks)
          else
            (case pop revToks of
               None \<Rightarrow> Inl TypeError
             | Some (tok, revToks1) \<Rightarrow>
                 if enumValue Plus \<le> enumValue (type tok) \<and>
                    enumValue (type tok) \<le> enumValue GreaterOrEq
                 then parseExpression_loop revToks1 expectedEnd (js @ '' '' @ text tok @ '' '')
                 else if type tok = Indent then
                   (if text tok = ''AND''
                    then parseExpression_loop revToks1 expectedEnd (js @ '' && '')
                    else if text tok = ''OR''
                    then parseExpression_loop revToks1 expectedEnd (js @ '' || '')
                    else Inl (unexpectedTokenError tok revToks1))
                 else if type tok = Equal
                 then parseExpression_loop revToks1 expectedEnd (js @ '' === '')
                 else if type tok = NotEqual
                 then parseExpression_loop revToks1 expectedEnd (js @ '' !== '')
                 else Inl (unexpectedTokenError tok revToks1)))"
| "parseList revToks expectedEnd =
     (if expectedEnd \<noteq> Comma \<and> expectedEnd \<noteq> RBracket then Inl InvalidExpectedEnd
      else
        (case peek revToks of
           None \<Rightarrow> Inl TypeError
         | Some next \<Rightarrow>
             if type next = RParen \<or> type next = RBracket then Inr ([], revToks)
             else parseList_loop revToks expectedEnd []))"
| "parseList_loop revToks expectedEnd js =
     (case parseExpression revToks expectedEnd of
        Inl e \<Rightarrow> Inl e
      | Inr (item, revToks1) \<Rightarrow>
          (case peek revToks1 of
             None \<Rightarrow> Inl TypeError
           | Some next \<Rightarrow>
               if type next = RParen \<or> type next = RBracket then Inr (js @ item, revToks1)
               else
                 (case consume revToks1 Comma of
                    Inl e \<Rightarrow> Inl e
                  | Inr (sep, revToks2) \<Rightarrow>
                      parseList_loop revToks2 expectedEnd (js @ item @ '', ''))))"
| "parseFunctionCall name revToks =
     (if name = ''INCLUDES'' then
        (case consume revToks LParen of
           Inl e \<Rightarrow> Inl e
         | Inr (opening, revToks1) \<Rightarrow>
             (case parseExpression revToks1 Comma of
                Inl e \<Rightarrow> Inl e
              | Inr (arg1, revToks2) \<Rightarrow>
                  (case consume revToks2 Comma of
                     Inl e \<Rightarrow> Inl e
                   | Inr (sep, revToks3) \<Rightarrow>
                       (case parseExpression revToks3 Comma of
                          Inl e \<Rightarrow> Inl e
                        | Inr (arg2, revToks4) \<Rightarrow>
                            (case consume revToks4 RParen of
                               Inl e \<Rightarrow> Inl e
                             | Inr (closing, revToks5) \<Rightarrow>
                                 Inr (''('' @ arg1 @ '').includes('' @ arg2 @ '')'', revToks5))))))
      else if name = ''PERCENT'' then
        (case consume revToks LParen of
           Inl e \<Rightarrow> Inl e
         | Inr (opening, revToks1) \<Rightarrow>
             (case parseExpression revToks1 Comma of
                Inl e \<Rightarrow> Inl e
              | Inr (arg1, revToks2) \<Rightarrow>
                  (case consume revToks2 Comma of
                     Inl e \<Rightarrow> Inl e
                   | Inr (sep, revToks3) \<Rightarrow>
                       (case parseExpression revToks3 Comma of
                          Inl e \<Rightarrow> Inl e
                        | Inr (arg2, revToks4) \<Rightarrow>
                            (case consume revToks4 RParen of
                               Inl e \<Rightarrow> Inl e
                             | Inr (closing, revToks5) \<Rightarrow>
                                 Inr (''getTrend('' @ arg1 @ '', '' @ arg2 @ '')'', revToks5))))))
      else if name = ''COUNTFORMS'' then parseCountForms revToks
      else Inl (UnsupportedFunction name))"
| "parseCountForms revToks =
     (case consume revToks LParen of
        Inl e \<Rightarrow> Inl e
      | Inr (opening, revToks1) \<Rightarrow>
          (case consume revToks1 Indent of
             Inl e \<Rightarrow> Inl e
           | Inr (form, revToks2) \<Rightarrow>
               (case pop revToks2 of
                  None \<Rightarrow> Inl TypeError
                | Some (tok, revToks3) \<Rightarrow>
                    if type tok = RParen
                    then Inr (''countOccurrences('' @ text form @ '', [])'', revToks3)
                    else if type tok = Comma then
                      (case parseExpression revToks3 Comma of
                         Inl e \<Rightarrow> Inl e
                       | Inr (condition, revToks4) \<Rightarrow>
                           (case consume revToks4 RParen of
                              Inl e \<Rightarrow> Inl e
                            | Inr (closing, revToks5) \<Rightarrow>
                                Inr (''countConditionalOccurrences('' @ text form @
                                     '', [], `'' @ condition @ ''`)'', revToks5)))
                    else Inl (unexpectedTokenError tok revToks3))))"
  by pat_completeness auto


lemma pop_le: "pop revToks = Some (tok, rest) \<Longrightarrow> length rest \<le> length revToks"
  by (auto dest: pop_SomeD)

lemma consume_le: "consume revToks ty = Inr (tok, rest) \<Longrightarrow> length rest \<le> length revToks"
  by (auto dest: consume_length)

abbreviation (input) "parse_dom \<equiv> parseExpression_parseExpression_loop_parseExpression_end_parseList_parseList_loop_parseFunctionCall_parseCountForms_dom"




lemma pop_eq_None: "(pop ts = None) = (ts = [])"
  by (auto simp: pop_def)

lemma peek_eq_Some: "(peek ts = Some t) = (\<exists>r. ts = r @ [t])"
  by (cases ts rule: rev_cases) (simp_all add: peek_def)

lemma peek_eq_None: "(peek ts = None) = (ts = [])"
  by (auto simp: peek_def)

lemma consume_eq_Inr: "(consume ts ty = Inr (t, r)) = (ts = r @ [t] \<and> type t = ty)"
  by (cases ts rule: rev_cases) (auto simp: consume_def)



lemma consume_snoc:
  "consume (ts @ [t]) ty = (if type t \<noteq> ty then Inl (unexpectedTokenError t ts) else Inr (t, ts))"
  by (simp add: consume_def)


lemma pop_step: "pop ts = Some (t, r) \<Longrightarrow> length ts \<le> k \<Longrightarrow> length r \<le> k"
  by (auto dest: pop_le)

lemma consume_step: "consume ts ty = Inr (t, r) \<Longrightarrow> length ts \<le> k \<Longrightarrow> length r \<le> k"
  by (auto dest: consume_le)

lemma parse_length_partial:
  "parse_dom (Inl (Inl (revToks, expectedEnd))) \<Longrightarrow>
     parseExpression revToks expectedEnd = Inr (r, rest) \<Longrightarrow> length rest \<le> length revToks"
  "parse_dom (Inl (Inr (Inl (revToks, expectedEnd, js)))) \<Longrightarrow>
     parseExpression_loop revToks expectedEnd js = Inr (r, rest) \<Longrightarrow> length rest \<le> length revToks"
  "parse_dom (Inl (Inr (Inr (revToks, expectedEnd, js)))) \<Longrightarrow>
     parseExpression_end revToks expectedEnd js = Inr (r, rest) \<Longrightarrow> length rest \<le> length revToks"
  "parse_dom (Inr (Inl (Inl (revToks, expectedEnd)))) \<Longrightarrow>
     parseList revToks expectedEnd = Inr (r, rest) \<Longrightarrow> length rest \<le> length revToks"
  "parse_dom (Inr (Inl (Inr (revToks, expectedEnd, js)))) \<Longrightarrow>
     parseList_loop revToks expectedEnd js = Inr (r, rest) \<Longrightarrow> length rest \<le> length revToks"
  "parse_dom (Inr (Inr (Inl (name, revToks)))) \<Longrightarrow>
     parseFunctionCall name revToks = Inr (r, rest) \<Longrightarrow> length rest \<le> length revToks"
  "parse_dom (Inr (Inr (Inr revToks))) \<Longrightarrow>
     parseCountForms revToks = Inr (r, rest) \<Longrightarrow> length rest \<le> length revToks"
proof (induct arbitrary: r rest and r rest and r rest and r rest and r rest and r rest and r rest
    rule: parseExpression_parseExpression_loop_parseExpression_end_parseList_parseList_loop_parseFunctionCall_parseCountForms.pinduct)
  case (1 revToks expectedEnd)
  note step = "1.hyps"(2-) [THEN le_trans]
  from "1.prems" "1.hyps"(1) show ?case
    apply (simp only: parseExpression.psimps)
    apply (simp split: option.splits if_splits sum.splits prod.splits)
    apply (simp_all add: step pop_step consume_step)
    done
next
  case (2 revToks expectedEnd js)
  note IH = "2.hyps"(2-) [OF _ refl]
  note step = IH(1,3-8,10) [THEN le_trans] IH(2) [OF _ _ _ _ _ refl, THEN le_trans]
    IH(9) [OF _ _ _ _ _ _ _ _ refl _ refl, THEN le_trans]
    IH(11) [OF _ _ _ _ _ _ _ _ _ refl _ refl, THEN le_trans]
  from "2.prems" "2.hyps"(1) show ?case
    apply (simp only: parseExpression_loop.psimps)
    apply (simp split: option.splits if_splits sum.splits prod.splits)
    apply (simp_all add: step pop_step consume_step)
    done
next
  case (3 revToks expectedEnd js)
  note step = "3.hyps"(2-) [OF _ _ _ refl, THEN le_trans]
  from "3.prems" "3.hyps"(1) show ?case
    apply (simp only: parseExpression_end.psimps)
    apply (simp split: option.splits if_splits sum.splits prod.splits)
    apply (simp_all add: step pop_step consume_step)
    done
next
  case (4 revToks expectedEnd)
  note step = "4.hyps"(2-) [THEN le_trans]
  from "4.prems" "4.hyps"(1) show ?case
    apply (simp only: parseList.psimps)
    apply (simp split: option.splits if_splits sum.splits prod.splits)
    apply (simp_all add: step pop_step consume_step)
    done
next
  case (5 revToks expectedEnd js)
  note step = "5.hyps"(2) [THEN le_trans] "5.hyps"(3) [OF _ refl _ _ _ refl, THEN le_trans]
  from "5.prems" "5.hyps"(1) show ?case
    apply (simp only: parseList_loop.psimps)
    apply (simp split: option.splits if_splits sum.splits prod.splits)
    apply (simp_all add: step pop_step consume_step)
    done
next
  case (6 name revToks)
  note step = "6.hyps"(2) [OF _ _ refl, THEN le_trans]
    "6.hyps"(3) [OF _ _ refl _ refl _ refl, THEN le_trans]
    "6.hyps"(4) [OF _ _ _ refl, THEN le_trans]
    "6.hyps"(5) [OF _ _ _ refl _ refl _ refl, THEN le_trans]
    "6.hyps"(6) [THEN le_trans]
  from "6.prems" "6.hyps"(1) show ?case
    apply (simp only: parseFunctionCall.psimps)
    apply (simp split: option.splits if_splits sum.splits prod.splits)
    apply (simp_all add: step pop_step consume_step)
    done
next
  case (7 revToks)
  note step = "7.hyps"(2) [OF _ refl _ refl _ refl, THEN le_trans]
  from "7.prems" "7.hyps"(1) show ?case
    apply (simp only: parseCountForms.psimps)
    apply (simp split: option.splits if_splits sum.splits prod.splits)
    apply (simp_all add: step pop_step consume_step)
    done
qed

lemma pop_less: "pop ts = Some (t, r) \<Longrightarrow> length ts \<le> k \<Longrightarrow> length r < k"
  by (auto dest: pop_length)

lemma consume_less: "consume ts ty = Inr (t, r) \<Longrightarrow> length ts \<le> k \<Longrightarrow> length r < k"
  by (auto dest: consume_length)

termination parseExpression
  apply (relation "measures
    [case_sum (case_sum (\<lambda>(ts, e). length ts)
                 (case_sum (\<lambda>(ts, e, js). length ts) (\<lambda>(ts, e, js). length ts)))
       (case_sum (case_sum (\<lambda>(ts, e). length ts) (\<lambda>(ts, e, js). length ts))
                 (case_sum (\<lambda>(n, ts). length ts) (\<lambda>ts. length ts))),
     case_sum (case_sum (\<lambda>x. 1) (case_sum (\<lambda>x. 0) (\<lambda>x. 0)))
       (case_sum (case_sum (\<lambda>x. 3) (\<lambda>x. 2)) (case_sum (\<lambda>x. 1) (\<lambda>x. 0)))]")
  apply simp_all
  apply (safe; simp add: pop_less consume_less pop_step consume_step
      parse_length_partial [THEN le_trans] parse_length_partial [THEN le_less_trans])+
  done

declare parseExpression.simps [simp del] parseExpression_loop.simps [simp del]
  parseExpression_end.simps [simp del] parseList.simps [simp del]
  parseList_loop.simps [simp del] parseFunctionCall.simps [simp del]
  parseCountForms.simps [simp del]

definition indicatorToJs :: "string \<Rightarrow> error + string" where
  "indicatorToJs formula =
     (case tokenize formula of
        Inl e \<Rightarrow> Inl e
      | Inr toks \<Rightarrow>
          (case parseExpression (rev toks) END of
             Inl e \<Rightarrow> Inl e
           | Inr (js, rest) \<Rightarrow> Inr js))"

section \<open>Tokenizing identifiers\<close>

text \<open>A string is an identifier when \<^verbatim>\<open>/^[a-zA-Z_]\w*/\<close> matches all of it.\<close>

definition isIdentifier :: "string \<Rightarrow> bool" where
  "isIdentifier name = (matchIdent name = Some name)"

lemma isIdentifier_Cons:
  "isIdentifier name \<Longrightarrow> \<exists>c cs. name = c # cs \<and> isIdentStart c \<and> (\<forall>x\<in>set cs. isWord x)"
  by (cases name) (auto simp: isIdentifier_def takeWhile_eq_all_conv split: if_splits)

lemma isIdentStart_not_special:
  "isIdentStart c \<Longrightarrow>
     c \<noteq> CHR ''('' \<and> c \<noteq> CHR '')'' \<and> c \<noteq> CHR ''['' \<and> c \<noteq> CHR '']'' \<and> c \<noteq> CHR '','' \<and>
     c \<noteq> CHR ''+'' \<and> c \<noteq> CHR ''-'' \<and> c \<noteq> CHR ''*'' \<and> c \<noteq> CHR ''/'' \<and> c \<noteq> CHR ''<'' \<and>
     c \<noteq> CHR ''>'' \<and> c \<noteq> CHR ''='' \<and> c \<noteq> CHR ''!'' \<and> c \<noteq> CHR ''$'' \<and> c \<noteq> CHR 0x22 \<and>
     \<not> isDigit c \<and> \<not> isSpace c"
  by (auto simp: isIdentStart_def isDigit_def isSpace_def charCode_def)

lemma isWord_not_space: "isWord c \<Longrightarrow> \<not> isSpace c"
  by (auto simp: isWord_def isIdentStart_def isDigit_def isSpace_def charCode_def)

lemma trim_noop: "s \<noteq> [] \<Longrightarrow> \<not> isSpace (hd s) \<Longrightarrow> \<not> isSpace (last s) \<Longrightarrow> trim s = s"
proof -
  assume s: "s \<noteq> []" and h: "\<not> isSpace (hd s)" and l: "\<not> isSpace (last s)"
  from s h have "dropWhile isSpace s = s" by (cases s) auto
  moreover from s l have "dropWhile isSpace (rev s) = rev s"
    by (cases s rule: rev_cases) auto
  ultimately show ?thesis by (simp add: trim_def)
qed

lemma trim_Nil [simp]: "trim [] = []"
  by (simp add: trim_def)

lemma firstToken_ident:
  assumes "isIdentifier name" and "rest = [] \<or> \<not> isWord (hd rest)"
  shows "firstToken (name @ rest) = Inr (mkToken Indent name)"
proof -
  from isIdentifier_Cons [OF assms(1)] obtain c cs where
    name: "name = c # cs" and c: "isIdentStart c" and cs: "\<forall>x\<in>set cs. isWord x"
    by blast
  from cs assms(2) have "takeWhile isWord (cs @ rest) = cs"
    by (cases rest) (auto simp: takeWhile_append2 takeWhile_eq_all_conv)
  with isIdentStart_not_special [OF c] c show ?thesis
    by (simp add: firstToken_def name)
qed

lemma firstToken_name:
  assumes "isIdentifier name" and "rest = [] \<or> \<not> isWord (hd rest)"
  shows "firstToken (CHR ''$'' # name @ rest) = Inr (mkToken Name (CHR ''$'' # name))"
proof -
  from isIdentifier_Cons [OF assms(1)] obtain c cs where
    name: "name = c # cs" and c: "isIdentStart c" and cs: "\<forall>x\<in>set cs. isWord x"
    by blast
  from cs assms(2) have "takeWhile isWord (cs @ rest) = cs"
    by (cases rest) (auto simp: takeWhile_append2 takeWhile_eq_all_conv)
  with c show ?thesis
    by (simp add: firstToken_def name)
qed

lemma tokenize_loop_step:
  "firstToken (trim s) = Inr t \<Longrightarrow> type t \<noteq> END \<Longrightarrow>
     tokenize_loop s acc = tokenize_loop (drop (length (text t)) (trim s)) (acc @ [t])"
  by (subst tokenize_loop.simps) simp

lemma tokenize_loop_Nil: "tokenize_loop [] acc = Inr (acc @ [mkToken END []])"
  by (subst tokenize_loop.simps) (simp add: firstToken_def mkToken_def)

lemma isIdentifier_last: "isIdentifier name \<Longrightarrow> \<not> isSpace (last name)"
  by (drule isIdentifier_Cons)
     (auto simp: isWord_not_space isIdentStart_not_special split: if_splits)

lemma tokenize_field:
  assumes "isIdentifier name"
  shows "tokenize (CHR ''$'' # name) = Inr [mkToken Name (CHR ''$'' # name), mkToken END []]"
proof -
  from isIdentifier_Cons [OF assms] have ne: "name \<noteq> []" by auto
  have sp: "\<not> isSpace (CHR ''$'')" by (simp add: isSpace_def charCode_def)
  from ne isIdentifier_last [OF assms] sp have tr: "trim (CHR ''$'' # name) = CHR ''$'' # name"
    by (intro trim_noop) simp_all
  from firstToken_name [OF assms, of "[]"]
  have ft: "firstToken (trim (CHR ''$'' # name)) = Inr (mkToken Name (CHR ''$'' # name))"
    by (simp add: tr)
  show ?thesis
    unfolding tokenize_def
    by (subst tokenize_loop_step [OF ft]) (simp_all add: mkToken_def tr tokenize_loop_Nil)
qed

section \<open>Unary operators\<close>

lemma firstToken_not:
  "rest \<noteq> [] \<Longrightarrow> hd rest \<noteq> CHR ''='' \<Longrightarrow>
     firstToken (CHR ''!'' # rest) = Inr (mkToken Not ''!'')"
  by (cases rest) (simp_all add: firstToken_def followedByEq_def)

lemma tokenize_loop_nots:
  "tokenize_loop (replicate n (CHR ''!'') @ ''x'') acc =
     Inr (acc @ replicate n (mkToken Not ''!'') @ [mkToken Indent ''x'', mkToken END []])"
proof (induction n arbitrary: acc)
  case 0
  have "tokenize_loop ''x'' acc = Inr ((acc @ [mkToken Indent ''x'']) @ [mkToken END []])"
    by code_simp
  then show ?case by simp
next
  case (Suc n)
  let ?rest = "replicate n (CHR ''!'') @ ''x''"
  have sp: "\<not> isSpace (CHR ''!'')" "\<not> isSpace (CHR ''x'')"
    by (simp_all add: isSpace_def charCode_def)
  then have tr: "trim (CHR ''!'' # ?rest) = CHR ''!'' # ?rest"
    by (intro trim_noop) simp_all
  have "hd ?rest \<noteq> CHR ''=''" by (cases n) simp_all
  then have ft: "firstToken (trim (CHR ''!'' # ?rest)) = Inr (mkToken Not ''!'')"
    by (simp add: tr firstToken_not)
  have "tokenize_loop (CHR ''!'' # ?rest) acc = tokenize_loop ?rest (acc @ [mkToken Not ''!''])"
    by (subst tokenize_loop_step [OF ft]) (simp_all add: mkToken_def tr)
  then show ?case
    by (simp add: Suc.IH replicate_app_Cons_same)
qed

lemma parse_not:
  "type tok = Not \<Longrightarrow>
     parseExpression_loop (ts @ [tok]) e js = parseExpression_loop ts e (js @ ''!'')"
  by (subst parseExpression_loop.simps) simp

lemma parse_nots:
  "parseExpression_loop (ts @ replicate n (mkToken Not ''!'')) e js =
     parseExpression_loop ts e (js @ replicate n (CHR ''!''))"
proof (induction n arbitrary: js)
  case 0
  show ?case by simp
next
  case (Suc n)
  have "parseExpression_loop (ts @ replicate (Suc n) (mkToken Not ''!'')) e js =
        parseExpression_loop ((ts @ replicate n (mkToken Not ''!'')) @ [mkToken Not ''!'']) e js"
    by (simp add: replicate_append_same)
  also have "\<dots> = parseExpression_loop (ts @ replicate n (mkToken Not ''!'')) e (js @ ''!'')"
    by (rule parse_not) (simp add: mkToken_def)
  also have "\<dots> = parseExpression_loop ts e (js @ replicate (Suc n) (CHR ''!''))"
    by (simp add: Suc.IH replicate_app_Cons_same)
  finally show ?case .
qed

lemma sign_twice:
  "(type tok = Plus \<or> type tok = Minus) \<Longrightarrow> (type nx = Plus \<or> type nx = Minus) \<Longrightarrow>
     parseExpression_loop (ts @ [nx, tok]) e js = Inl (UnexpectedToken (printTokens (ts @ [nx])))"
  by (subst parseExpression_loop.simps) (auto simp: unexpectedTokenError_def)

lemma sign_once:
  "(type tok = Plus \<or> type tok = Minus) \<Longrightarrow> \<not> (type nx = Plus \<or> type nx = Minus) \<Longrightarrow>
     parseExpression_loop (ts @ [nx, tok]) e js = parseExpression_loop (ts @ [nx]) e (js @ text tok)"
  by (subst parseExpression_loop.simps) auto

section \<open>Function calls\<close>

lemma parseFunctionCall_INCLUDES:
  "(parseFunctionCall ''INCLUDES'' revToks = Inr (js, rest)) =
     (\<exists>opening ts1 arg1 sep ts2 arg2 closing.
        revToks = ts1 @ [opening] \<and> type opening = LParen \<and>
        parseExpression ts1 Comma = Inr (arg1, ts2 @ [sep]) \<and> type sep = Comma \<and>
        parseExpression ts2 Comma = Inr (arg2, rest @ [closing]) \<and> type closing = RParen \<and>
        js = ''('' @ arg1 @ '').includes('' @ arg2 @ '')'')"
  by (subst parseFunctionCall.simps)
     (auto simp: consume_eq_Inr consume_snoc split: sum.splits)

lemma unsupported_function:
  "type tok = Indent \<Longrightarrow> type nx = LParen \<Longrightarrow>
   text tok \<noteq> ''INCLUDES'' \<Longrightarrow> text tok \<noteq> ''PERCENT'' \<Longrightarrow> text tok \<noteq> ''COUNTFORMS'' \<Longrightarrow>
     parseExpression_loop (ts @ [nx, tok]) e js = Inl (UnsupportedFunction (text tok))"
  by (subst parseExpression_loop.simps) (simp add: parseFunctionCall.simps)

lemma parseCountForms_bare:
  "type opening = LParen \<Longrightarrow> type form = Indent \<Longrightarrow> type closing = RParen \<Longrightarrow>
     parseFunctionCall ''COUNTFORMS'' (ts @ [closing, form, opening]) =
       Inr (''countOccurrences('' @ text form @ '', [])'', ts)"
  by (simp add: parseFunctionCall.simps parseCountForms.simps consume_def
        append_Cons [symmetric, of _ "[]"] del: append_Cons)

lemma parseCountForms_condition:
  "type opening = LParen \<Longrightarrow> type form = Indent \<Longrightarrow> type sep = Comma \<Longrightarrow>
   type closing = RParen \<Longrightarrow> parseExpression ts Comma = Inr (condition, rest @ [closing]) \<Longrightarrow>
     parseFunctionCall ''COUNTFORMS'' (ts @ [sep, form, opening]) =
       Inr (''countConditionalOccurrences('' @ text form @ '', [], `'' @ condition @ ''`)'', rest)"
  by (simp add: parseFunctionCall.simps parseCountForms.simps consume_def)


section \<open>Binary operators\<close>

text \<open>
  The operator table of the translation: what is appended to the output for a token at an
  operator position, \<open>None\<close> for a token that is no operator.
\<close>

definition operatorJs :: "Token \<Rightarrow> string option" where
  "operatorJs tok =
     (if type tok \<in> {Plus, Minus, Mul, Div, Less, LessOrEq, Greater, GreaterOrEq}
      then Some ('' '' @ text tok @ '' '')
      else if type tok = Indent \<and> text tok = ''AND'' then Some '' && ''
      else if type tok = Indent \<and> text tok = ''OR'' then Some '' || ''
      else if type tok = Equal then Some '' === ''
      else if type tok = NotEqual then Some '' !== ''
      else None)"

lemma passThrough_range:
  "(enumValue Plus \<le> enumValue ty \<and> enumValue ty \<le> enumValue GreaterOrEq) =
     (ty \<in> {Plus, Minus, Mul, Div, Less, LessOrEq, Greater, GreaterOrEq})"
  by (cases ty) simp_all

lemma operator_position:
  "\<not> (type tok = e \<or> e = Comma \<and> type tok = RParen \<or> e = RBracket \<and> type tok = Comma) \<Longrightarrow>
     parseExpression_end (ts @ [tok]) e js =
       (case operatorJs tok of
          Some opr \<Rightarrow> parseExpression_loop ts e (js @ opr)
        | None \<Rightarrow> Inl (unexpectedTokenError tok ts))"
  by (subst parseExpression_end.simps)
     (auto simp: operatorJs_def passThrough_range simp del: enumValue.simps)

lemma operatorJs_type:
  "operatorJs tok \<noteq> None \<Longrightarrow> type tok \<noteq> END \<and> type tok \<noteq> LParen"
  by (auto simp: operatorJs_def split: if_splits)

lemma tokenize_countforms:
  assumes "isIdentifier form"
  shows "tokenize (''COUNTFORMS('' @ form @ '')'') =
     Inr [mkToken Indent ''COUNTFORMS'', mkToken LParen ''('', mkToken Indent form,
          mkToken RParen '')'', mkToken END []]"
proof -
  have sp: "\<not> isSpace (CHR ''C'')" "\<not> isSpace (CHR ''('')" "\<not> isSpace (CHR '')'')"
    by (simp_all add: isSpace_def charCode_def)
  have w: "\<not> isWord (CHR ''('')" "\<not> isWord (CHR '')'')"
    by (simp_all add: isWord_def isIdentStart_def isDigit_def charCode_def)
  have cf: "isIdentifier ''COUNTFORMS''" by code_simp
  from isIdentifier_Cons [OF assms] obtain c cs where form: "form = c # cs" and c: "isIdentStart c"
    by blast
  from c have csp: "\<not> isSpace c" by (simp add: isIdentStart_not_special)
  let ?s1 = "''('' @ form @ '')''"
  let ?s2 = "form @ '')''"
  have t0: "trim (''COUNTFORMS'' @ ?s1) = ''COUNTFORMS'' @ ?s1"
    using sp by (intro trim_noop) simp_all
  have t1: "trim ?s1 = ?s1" using sp by (intro trim_noop) simp_all
  have t2: "trim ?s2 = ?s2" using sp csp by (intro trim_noop) (simp_all add: form)
  have t3: "trim '')'' = '')''" using sp by (intro trim_noop) simp_all
  have f0: "firstToken (trim (''COUNTFORMS'' @ ?s1)) = Inr (mkToken Indent ''COUNTFORMS'')"
    unfolding t0 using w by (intro firstToken_ident [OF cf]) simp
  have f1: "firstToken (trim ?s1) = Inr (mkToken LParen ''('')"
    unfolding t1 by (simp add: firstToken_def)
  have f2: "firstToken (trim ?s2) = Inr (mkToken Indent form)"
    unfolding t2 using w by (intro firstToken_ident [OF assms]) simp
  have f3: "firstToken (trim '')'') = Inr (mkToken RParen '')'')"
    unfolding t3 by (simp add: firstToken_def)
  have "tokenize_loop (''COUNTFORMS'' @ ?s1) [] = tokenize_loop ?s1 [mkToken Indent ''COUNTFORMS'']"
    by (subst tokenize_loop_step [OF f0]) (simp_all add: mkToken_def t0 [simplified])
  also have "\<dots> = tokenize_loop ?s2 [mkToken Indent ''COUNTFORMS'', mkToken LParen ''('']"
    by (subst tokenize_loop_step [OF f1]) (simp_all add: mkToken_def t1 [simplified])
  also have "\<dots> = tokenize_loop '')''
      [mkToken Indent ''COUNTFORMS'', mkToken LParen ''('', mkToken Indent form]"
    by (subst tokenize_loop_step [OF f2]) (simp_all add: mkToken_def t2 [simplified])
  also have "\<dots> = tokenize_loop []
      [mkToken Indent ''COUNTFORMS'', mkToken LParen ''('', mkToken Indent form, mkToken RParen '')'']"
    by (subst tokenize_loop_step [OF f3]) (simp_all add: mkToken_def t3 [simplified])
  finally show ?thesis
    by (simp add: tokenize_def tokenize_loop_Nil)
qed

lemma countforms_bare:
  "isIdentifier form \<Longrightarrow>
     indicatorToJs (''COUNTFORMS('' @ form @ '')'') = Inr (''countOccurrences('' @ form @ '', [])'')"
  using parseCountForms_bare
    [of "mkToken LParen ''(''" "mkToken Indent form" "mkToken RParen '')''" "[mkToken END []]"]
  by (simp add: indicatorToJs_def tokenize_countforms [simplified] parseExpression.simps
      parseExpression_loop.simps [of "[a, b, c, d, e]" for a b c d e]
      parseExpression_end.simps mkToken_def)

section \<open>Field references in the tokenizer\<close>

lemma trimEnd_Cons:
  "rev (dropWhile P (rev r @ [c])) =
     (if P c \<and> rev (dropWhile P (rev r)) = [] then [] else c # rev (dropWhile P (rev r)))"
  by (auto simp: dropWhile_append dropWhile_eq_Nil_conv)

lemma dropWhile_trimEnd:
  "dropWhile P (rev (dropWhile P (rev r))) = rev (dropWhile P (rev (dropWhile P r)))"
proof (induction r)
  case Nil
  show ?case by simp
next
  case (Cons c r)
  show ?case
  proof (cases "P c")
    case True
    with Cons show ?thesis
      by (auto simp: trimEnd_Cons dropWhile_eq_Nil_conv dest: set_dropWhileD)
  next
    case False
    then show ?thesis by (simp add: trimEnd_Cons)
  qed
qed

lemma trim_trimEnd: "trim (rev (dropWhile isSpace (rev r))) = trim r"
  unfolding trim_def by (simp only: dropWhile_trimEnd rev_rev_ident dropWhile_idem)

lemma trim_idem: "trim (trim s) = trim s"
  unfolding trim_def by (simp only: dropWhile_trimEnd rev_rev_ident dropWhile_idem)

lemma tokenize_loop_trim: "tokenize_loop (trim s) acc = tokenize_loop s acc"
  by (subst tokenize_loop.simps, subst (2) tokenize_loop.simps, unfold trim_idem, rule refl)

lemma trim_prefix:
  "pre \<noteq> [] \<Longrightarrow> \<not> isSpace (hd pre) \<Longrightarrow> \<not> isSpace (last pre) \<Longrightarrow>
     trim (pre @ rest) = pre @ rev (dropWhile isSpace (rev rest))"
proof -
  assume pre: "pre \<noteq> []" and h: "\<not> isSpace (hd pre)" and l: "\<not> isSpace (last pre)"
  from pre h have "dropWhile isSpace (pre @ rest) = pre @ rest" by (cases pre) auto
  moreover from pre l have "dropWhile isSpace (rev rest @ rev pre) = dropWhile isSpace (rev rest) @ rev pre"
    by (cases pre rule: rev_cases) (auto simp: dropWhile_append)
  ultimately show ?thesis by (simp add: trim_def)
qed

lemma trimEnd_hd:
  "rest = [] \<or> \<not> Q (hd rest) \<Longrightarrow>
     rev (dropWhile P (rev rest)) = [] \<or> \<not> Q (hd (rev (dropWhile P (rev rest))))"
  by (cases rest) (auto simp: trimEnd_Cons)

lemma tokenize_loop_name:
  assumes "isIdentifier name" and "rest = [] \<or> \<not> isWord (hd rest)"
  shows "tokenize_loop (CHR ''$'' # name @ rest) acc =
           tokenize_loop rest (acc @ [mkToken Name (CHR ''$'' # name)])"
proof -
  let ?rest = "rev (dropWhile isSpace (rev rest))"
  have sp: "\<not> isSpace (CHR ''$'')" by (simp add: isSpace_def charCode_def)
  from isIdentifier_Cons [OF assms(1)] have ne: "name \<noteq> []" by auto
  from ne isIdentifier_last [OF assms(1)] sp
  have "trim ((CHR ''$'' # name) @ rest) = (CHR ''$'' # name) @ ?rest"
    by (intro trim_prefix) simp_all
  then have tr: "trim (CHR ''$'' # name @ rest) = CHR ''$'' # name @ ?rest" by simp
  from firstToken_name [OF assms(1) trimEnd_hd [of rest isWord isSpace, OF assms(2)]]
  have ft: "firstToken (trim (CHR ''$'' # name @ rest)) = Inr (mkToken Name (CHR ''$'' # name))"
    by (simp add: tr)
  have "tokenize_loop (CHR ''$'' # name @ rest) acc =
        tokenize_loop ?rest (acc @ [mkToken Name (CHR ''$'' # name)])"
    by (subst tokenize_loop_step [OF ft]) (simp_all add: mkToken_def tr)
  also have "\<dots> = tokenize_loop (trim ?rest) (acc @ [mkToken Name (CHR ''$'' # name)])"
    by (simp only: tokenize_loop_trim)
  also have "\<dots> = tokenize_loop rest (acc @ [mkToken Name (CHR ''$'' # name)])"
    by (simp only: trim_trimEnd tokenize_loop_trim)
  finally show ?thesis .
qed

lemma tokenize_loop_acc:
  "tokenize_loop s (a @ acc) = map_sum id ((@) a) (tokenize_loop s acc)"
proof (induction s acc arbitrary: a rule: tokenize_loop.induct)
  case (1 s toks)
  show ?case
  proof (cases "firstToken (trim s)")
    case (Inl e)
    then show ?thesis by (subst tokenize_loop.simps, subst (2) tokenize_loop.simps) simp
  next
    case (Inr t)
    show ?thesis
    proof (cases "type t = END")
      case True
      with Inr show ?thesis by (subst tokenize_loop.simps, subst (2) tokenize_loop.simps) simp
    next
      case False
      from "1.IH" [OF Inr False, of a] Inr False show ?thesis
        by (subst tokenize_loop.simps, subst (2) tokenize_loop.simps) (simp add: id_def)
    qed
  qed
qed

lemma parse_name:
  "type tok = Name \<Longrightarrow>
     parseExpression_loop (ts @ [tok]) e js =
       parseExpression_end ts e (js @ ''**'' @ drop 1 (text tok) @ ''**'')"
  by (subst parseExpression_loop.simps) simp

lemma field_first:
  assumes "isIdentifier name" and "rest = [] \<or> \<not> isWord (hd rest)" and "tokenize rest = Inr toks"
  shows "indicatorToJs (CHR ''$'' # name @ rest) =
           map_sum id fst (parseExpression_end (rev toks) END (''**'' @ name @ ''**''))"
proof -
  have "tokenize (CHR ''$'' # name @ rest) = Inr (mkToken Name (CHR ''$'' # name) # toks)"
    using tokenize_loop_acc [of rest "[mkToken Name (CHR ''$'' # name)]" "[]"] assms(3)
    by (simp add: tokenize_def tokenize_loop_name [OF assms(1,2)])
  then show ?thesis
    by (simp add: indicatorToJs_def parseExpression.simps parse_name mkToken_def
        split: sum.splits)
qed


section \<open>The grammar of formulas\<close>

text \<open>
  The flat grammar of the specification, as syntax trees that keep their tokens.  A primary
  is a single identifier, field reference or literal, a primary after a unary sign or
  negation, an expression between parentheses, a list between brackets, or a call of one of
  the supported functions.  An expression is a primary followed by any number of pairs of a
  binary operator and a primary; there are no precedence levels.
\<close>

datatype primary =
    Leaf Token
  | Unary Token primary
  | Parenthesized Token expression Token
  | EmptyList Token Token
  | ListOf Token elements Token
  | Call2 Token Token expression Token expression Token
  | CountAll Token Token Token Token
  | CountIf Token Token Token Token expression Token
and expression =
    Primary primary
  | Binary primary Token expression
and elements =
    Final expression
  | Element expression Token elements

text \<open>The tokens of a tree, in the order of the source formula.\<close>

primrec primaryTokens :: "primary \<Rightarrow> Token list"
  and expressionTokens :: "expression \<Rightarrow> Token list"
  and elementsTokens :: "elements \<Rightarrow> Token list"
where
  "primaryTokens (Leaf t) = [t]"
| "primaryTokens (Unary t p) = t # primaryTokens p"
| "primaryTokens (Parenthesized l x r) = l # expressionTokens x @ [r]"
| "primaryTokens (EmptyList l r) = [l, r]"
| "primaryTokens (ListOf l xs r) = l # elementsTokens xs @ [r]"
| "primaryTokens (Call2 f l a c b r) = f # l # expressionTokens a @ c # expressionTokens b @ [r]"
| "primaryTokens (CountAll f l form r) = [f, l, form, r]"
| "primaryTokens (CountIf f l form c x r) = f # l # form # c # expressionTokens x @ [r]"
| "expressionTokens (Primary p) = primaryTokens p"
| "expressionTokens (Binary p opr x) = primaryTokens p @ opr # expressionTokens x"
| "elementsTokens (Final x) = expressionTokens x"
| "elementsTokens (Element x c xs) = expressionTokens x @ c # elementsTokens xs"

text \<open>
  The token types that the grammar asks for at each place.  A sign is not followed by
  another sign, and an operator is a token of the operator table.
\<close>

primrec wellFormedPrimary :: "primary \<Rightarrow> bool"
  and wellFormedExpression :: "expression \<Rightarrow> bool"
  and wellFormedElements :: "elements \<Rightarrow> bool"
where
  "wellFormedPrimary (Leaf t) = (type t \<in> {Indent, Name, String, Number})"
| "wellFormedPrimary (Unary t p) =
     ((type t = Not \<or>
       type t \<in> {Plus, Minus} \<and> type (hd (primaryTokens p)) \<notin> {Plus, Minus}) \<and>
      wellFormedPrimary p)"
| "wellFormedPrimary (Parenthesized l x r) =
     (type l = LParen \<and> wellFormedExpression x \<and> type r = RParen)"
| "wellFormedPrimary (EmptyList l r) = (type l = LBracket \<and> type r = RBracket)"
| "wellFormedPrimary (ListOf l xs r) =
     (type l = LBracket \<and> wellFormedElements xs \<and> type r = RBracket)"
| "wellFormedPrimary (Call2 f l a c b r) =
     (type f = Indent \<and> text f \<in> {''INCLUDES'', ''PERCENT''} \<and> type l = LParen \<and>
      wellFormedExpression a \<and> type c = Comma \<and> wellFormedExpression b \<and> type r = RParen)"
| "wellFormedPrimary (CountAll f l form r) =
     (type f = Indent \<and> text f = ''COUNTFORMS'' \<and> type l = LParen \<and> type form = Indent \<and>
      type r = RParen)"
| "wellFormedPrimary (CountIf f l form c x r) =
     (type f = Indent \<and> text f = ''COUNTFORMS'' \<and> type l = LParen \<and> type form = Indent \<and>
      type c = Comma \<and> wellFormedExpression x \<and> type r = RParen)"
| "wellFormedExpression (Primary p) = wellFormedPrimary p"
| "wellFormedExpression (Binary p opr x) =
     (wellFormedPrimary p \<and> operatorJs opr \<noteq> None \<and> wellFormedExpression x)"
| "wellFormedElements (Final x) = wellFormedExpression x"
| "wellFormedElements (Element x c xs) =
     (wellFormedExpression x \<and> type c = Comma \<and> wellFormedElements xs)"

text \<open>
  The translation that the specification gives for each production.  The translation of
  \<open>p opr x\<close> is the translation of \<open>p\<close>, then the operator of the table, then the translation
  of \<open>x\<close>: operators come out in the order of the source.
\<close>

primrec primaryJs :: "primary \<Rightarrow> string"
  and expressionJs :: "expression \<Rightarrow> string"
  and elementsJs :: "elements \<Rightarrow> string"
where
  "primaryJs (Leaf t) = (if type t = Name then ''**'' @ drop 1 (text t) @ ''**'' else text t)"
| "primaryJs (Unary t p) = (if type t = Not then ''!'' else text t) @ primaryJs p"
| "primaryJs (Parenthesized l x r) = ''('' @ expressionJs x @ '')''"
| "primaryJs (EmptyList l r) = ''[]''"
| "primaryJs (ListOf l xs r) = ''['' @ elementsJs xs @ '']''"
| "primaryJs (Call2 f l a c b r) =
     (if text f = ''INCLUDES''
      then ''('' @ expressionJs a @ '').includes('' @ expressionJs b @ '')''
      else ''getTrend('' @ expressionJs a @ '', '' @ expressionJs b @ '')'')"
| "primaryJs (CountAll f l form r) = ''countOccurrences('' @ text form @ '', [])''"
| "primaryJs (CountIf f l form c x r) =
     ''countConditionalOccurrences('' @ text form @ '', [], `'' @ expressionJs x @ ''`)''"
| "expressionJs (Primary p) = primaryJs p"
| "expressionJs (Binary p opr x) = primaryJs p @ the (operatorJs opr) @ expressionJs x"
| "elementsJs (Final x) = expressionJs x"
| "elementsJs (Element x c xs) = expressionJs x @ '', '' @ elementsJs xs"

text \<open>The acceptance rule at the end of an expression.\<close>

definition acceptedEnd :: "TokenType \<Rightarrow> TokenType \<Rightarrow> bool" where
  "acceptedEnd expectedEnd ty =
     (ty = expectedEnd \<or> expectedEnd = Comma \<and> ty = RParen \<or> expectedEnd = RBracket \<and> ty = Comma)"

lemma primaryTokens_nonempty [simp]: "primaryTokens p \<noteq> []"
  by (cases p) simp_all

lemma expressionTokens_nonempty [simp]: "expressionTokens x \<noteq> []"
  by (cases x) simp_all

lemma elementsTokens_nonempty [simp]: "elementsTokens xs \<noteq> []"
  by (cases xs) simp_all

definition startsPrimary :: "TokenType \<Rightarrow> bool" where
  "startsPrimary ty = (ty \<in> {Indent, Name, String, Number, Plus, Minus, Not, LParen, LBracket})"

lemma primary_start: "wellFormedPrimary p \<Longrightarrow> startsPrimary (type (hd (primaryTokens p)))"
  by (cases p) (auto simp: startsPrimary_def)

lemma expression_start:
  "wellFormedExpression x \<Longrightarrow> startsPrimary (type (hd (expressionTokens x)))"
  by (cases x) (auto simp: primary_start)

lemma elements_start:
  "wellFormedElements xs \<Longrightarrow> startsPrimary (type (hd (elementsTokens xs)))"
  by (cases xs) (auto simp: expression_start)

lemma pop_snoc2 [simp]: "pop (ts @ xs @ [t]) = Some (t, ts @ xs)"
  using pop_snoc [of "ts @ xs" t] by simp

lemma pop_Cons_snoc [simp]: "pop (ts @ x # xs @ [t]) = Some (t, ts @ x # xs)"
  using pop_snoc [of "ts @ x # xs" t] by simp

lemma peek_Cons_rev [simp]: "xs \<noteq> [] \<Longrightarrow> peek (ts @ x # rev xs) = Some (hd xs)"
  by (simp add: peek_def last_rev)

lemma peek_Cons_rev_append [simp]:
  "xs \<noteq> [] \<Longrightarrow> peek (ts @ x # ys @ y # rev xs) = Some (hd xs)"
  by (simp add: peek_def last_rev)

lemma call_position:
  "type f = Indent \<Longrightarrow> type l = LParen \<Longrightarrow>
     parseExpression_loop (ts @ [l, f]) e js =
       (case parseFunctionCall (text f) (ts @ [l]) of
          Inl err \<Rightarrow> Inl err
        | Inr (call, rest) \<Rightarrow> parseExpression_end rest e (js @ call))"
  by (subst parseExpression_loop.simps) simp

lemma call2_step:
  "type l = LParen \<Longrightarrow> type c = Comma \<Longrightarrow> type r = RParen \<Longrightarrow>
   parseExpression ts1 Comma = Inr (arg1, ts2 @ [c]) \<Longrightarrow>
   parseExpression ts2 Comma = Inr (arg2, rest @ [r]) \<Longrightarrow>
     parseFunctionCall ''INCLUDES'' (ts1 @ [l]) =
       Inr (''('' @ arg1 @ '').includes('' @ arg2 @ '')'', rest) \<and>
     parseFunctionCall ''PERCENT'' (ts1 @ [l]) =
       Inr (''getTrend('' @ arg1 @ '', '' @ arg2 @ '')'', rest)"
  by (simp add: parseFunctionCall.simps consume_def)

lemma parse_grammar:
  "wellFormedPrimary p \<Longrightarrow> type nx \<noteq> LParen \<Longrightarrow>
     parseExpression_loop (ts @ nx # rev (primaryTokens p)) e js =
       parseExpression_end (ts @ [nx]) e (js @ primaryJs p)"
  "wellFormedExpression x \<Longrightarrow> e \<in> {END, RParen, Comma, RBracket} \<Longrightarrow>
   acceptedEnd e (type nx) \<Longrightarrow>
     parseExpression_loop (ts @ nx # rev (expressionTokens x)) e js =
       Inr (js @ expressionJs x, ts @ [nx])"
  "wellFormedElements xs \<Longrightarrow> type nx = RBracket \<Longrightarrow>
     parseList_loop (ts @ nx # rev (elementsTokens xs)) RBracket js =
       Inr (js @ elementsJs xs, ts @ [nx])"
proof (induction p and x and xs arbitrary: ts nx e js and ts nx e js and ts nx js)
  case (Leaf t)
  then show ?case
    by (subst parseExpression_loop.simps) auto
next
  case (Unary t p)
  from Unary.prems have p: "wellFormedPrimary p" by simp
  show ?case
  proof (cases "type t = Not")
    case True
    then show ?thesis
      by (subst parseExpression_loop.simps) (simp add: Unary.IH [OF p Unary.prems(2)])
  next
    case False
    with Unary.prems show ?thesis
      by (subst parseExpression_loop.simps) (auto simp: Unary.IH [OF p Unary.prems(2)] last_rev)
  qed
next
  case (Parenthesized l x r)
  from Parenthesized.prems have l: "type l = LParen" and x: "wellFormedExpression x"
    and r: "type r = RParen" by simp_all
  have inner: "parseExpression (ts @ nx # r # rev (expressionTokens x)) RParen =
      Inr (expressionJs x, ts @ [nx, r])"
    using Parenthesized.IH [OF x, of RParen r "ts @ [nx]" "[]"] r
    by (simp add: parseExpression.simps acceptedEnd_def)
  show ?case
    by (subst parseExpression_loop.simps) (simp add: l inner consume_def r)
next
  case (EmptyList l r)
  then show ?case
    by (subst parseExpression_loop.simps) (simp add: parseList.simps consume_def)
next
  case (ListOf l xs r)
  from ListOf.prems have l: "type l = LBracket" and xs: "wellFormedElements xs"
    and r: "type r = RBracket" by simp_all
  from elements_start [OF xs] have st: "type (hd (elementsTokens xs)) \<noteq> RParen"
    "type (hd (elementsTokens xs)) \<noteq> RBracket"
    by (auto simp: startsPrimary_def)
  have inner: "parseList (ts @ nx # r # rev (elementsTokens xs)) RBracket =
      Inr (elementsJs xs, ts @ [nx, r])"
    using ListOf.IH [OF xs r, of "ts @ [nx]" "[]"] st
    by (simp add: parseList.simps last_rev)
  show ?case
    by (subst parseExpression_loop.simps) (simp add: l inner consume_def r)
next
  case (Call2 f l a c b r)
  from Call2.prems have f: "type f = Indent" "text f = ''INCLUDES'' \<or> text f = ''PERCENT''"
    and l: "type l = LParen" and a: "wellFormedExpression a" and c: "type c = Comma"
    and b: "wellFormedExpression b" and r: "type r = RParen" by simp_all
  have first: "parseExpression (ts @ nx # r # rev (expressionTokens b) @ c # rev (expressionTokens a)) Comma =
      Inr (expressionJs a, ts @ nx # r # rev (expressionTokens b) @ [c])"
    using Call2.IH(1) [OF a, of Comma c "ts @ nx # r # rev (expressionTokens b)" "[]"] c
    by (simp add: parseExpression.simps acceptedEnd_def)
  have second: "parseExpression (ts @ nx # r # rev (expressionTokens b)) Comma =
      Inr (expressionJs b, ts @ [nx, r])"
    using Call2.IH(2) [OF b, of Comma r "ts @ [nx]" "[]"] r
    by (simp add: parseExpression.simps acceptedEnd_def)
  let ?ts1 = "ts @ nx # r # rev (expressionTokens b) @ c # rev (expressionTokens a)"
  note call = call2_step [OF l c r, of ?ts1 "expressionJs a" "ts @ nx # r # rev (expressionTokens b)"
      "expressionJs b" "ts @ [nx]"]
  have "parseExpression_loop (ts @ nx # rev (primaryTokens (Call2 f l a c b r))) e js =
        parseExpression_loop (?ts1 @ [l, f]) e js"
    by simp
  also have "\<dots> = parseExpression_end (ts @ [nx]) e (js @ primaryJs (Call2 f l a c b r))"
    using f(2) call first second
    by (subst call_position [OF f(1) l]) auto
  finally show ?case .
next
  case (CountAll f l form r)
  then show ?case
    by (subst parseExpression_loop.simps)
       (simp add: parseFunctionCall.simps parseCountForms.simps consume_def)
next
  case (CountIf f l form c x r)
  from CountIf.prems have f: "type f = Indent" "text f = ''COUNTFORMS''"
    and l: "type l = LParen" and form: "type form = Indent" and c: "type c = Comma"
    and x: "wellFormedExpression x" and r: "type r = RParen" by simp_all
  let ?ts1 = "ts @ nx # r # rev (expressionTokens x)"
  have inner: "parseExpression ?ts1 Comma = Inr (expressionJs x, (ts @ [nx]) @ [r])"
    using CountIf.IH [OF x, of Comma r "ts @ [nx]" "[]"] r
    by (simp add: parseExpression.simps acceptedEnd_def)
  note call = parseCountForms_condition [OF l form c r inner]
  have "parseExpression_loop (ts @ nx # rev (primaryTokens (CountIf f l form c x r))) e js =
        parseExpression_loop ((?ts1 @ [c, form]) @ [l, f]) e js"
    by simp
  also have "\<dots> = parseExpression_end (ts @ [nx]) e (js @ primaryJs (CountIf f l form c x r))"
    using call by (subst call_position [OF f(1) l]) (simp add: f(2))
  finally show ?case .
next
  case (Primary p)
  from Primary.prems have p: "wellFormedPrimary p" by simp
  from Primary.prems(2,3) have nx: "type nx \<noteq> LParen" by (auto simp: acceptedEnd_def)
  from Primary.prems(3) show ?case
    by (simp add: Primary.IH [OF p nx] parseExpression_end.simps acceptedEnd_def)
next
  case (Binary p opr x)
  from Binary.prems have p: "wellFormedPrimary p" and opr: "operatorJs opr \<noteq> None"
    and x: "wellFormedExpression x" by simp_all
  from opr obtain o_js where o_js: "operatorJs opr = Some o_js" by blast
  note ot = operatorJs_type [OF opr]
  have na: "\<not> (type opr = e \<or> e = Comma \<and> type opr = RParen \<or> e = RBracket \<and> type opr = Comma)"
    using Binary.prems(2,3) opr by (auto simp: acceptedEnd_def operatorJs_def split: if_splits)
  let ?ts = "ts @ nx # rev (expressionTokens x)"
  have "parseExpression_loop (ts @ nx # rev (expressionTokens (Binary p opr x))) e js =
        parseExpression_loop (?ts @ opr # rev (primaryTokens p)) e js"
    by simp
  also have "\<dots> = parseExpression_end (?ts @ [opr]) e (js @ primaryJs p)"
    using ot by (intro Binary.IH(1) [OF p]) simp
  also have "\<dots> = parseExpression_loop ?ts e ((js @ primaryJs p) @ o_js)"
    using na by (subst operator_position) (simp_all add: o_js)
  also have "\<dots> = Inr (((js @ primaryJs p) @ o_js) @ expressionJs x, ts @ [nx])"
    by (rule Binary.IH(2) [OF x Binary.prems(2,3)])
  finally show ?case by (simp add: o_js)
next
  case (Final x)
  from Final.prems have x: "wellFormedExpression x" by simp
  have item: "parseExpression (ts @ nx # rev (expressionTokens x)) RBracket =
      Inr (expressionJs x, ts @ [nx])"
    using Final.IH [OF x, of RBracket nx ts "[]"] Final.prems(2)
    by (simp add: parseExpression.simps acceptedEnd_def)
  show ?case
    by (subst parseList_loop.simps) (simp add: item Final.prems(2))
next
  case (Element x c xs)
  from Element.prems have x: "wellFormedExpression x" and c: "type c = Comma"
    and xs: "wellFormedElements xs" by simp_all
  let ?ts = "ts @ nx # rev (elementsTokens xs)"
  have item: "parseExpression (?ts @ c # rev (expressionTokens x)) RBracket =
      Inr (expressionJs x, ?ts @ [c])"
    using Element.IH(1) [OF x, of RBracket c ?ts "[]"] c
    by (simp add: parseExpression.simps acceptedEnd_def)
  have "parseList_loop (ts @ nx # rev (elementsTokens (Element x c xs))) RBracket js =
        parseList_loop (?ts @ c # rev (expressionTokens x)) RBracket js"
    by simp
  also have "\<dots> = parseList_loop ?ts RBracket (js @ expressionJs x @ '', '')"
    by (subst parseList_loop.simps) (simp add: item [simplified] c consume_def)
  also have "\<dots> = Inr ((js @ expressionJs x @ '', '') @ elementsJs xs, ts @ [nx])"
    by (rule Element.IH(2) [OF xs Element.prems(2)])
  finally show ?case by simp
qed

lemma parse_wellFormed:
  assumes "wellFormedExpression x" and "e \<in> {END, RParen, Comma, RBracket}"
    and "acceptedEnd e (type nx)"
  shows "parseExpression (ts @ nx # rev (expressionTokens x)) e = Inr (expressionJs x, ts @ [nx])"
  using parse_grammar(2) [OF assms, of ts "[]"] assms(2)
  by (subst parseExpression.simps) auto

lemma primary_then_token:
  assumes "wellFormedPrimary p" and "type tok \<noteq> LParen" and "\<not> acceptedEnd e (type tok)"
  shows "parseExpression_loop (ts @ tok # rev (primaryTokens p)) e js =
     (case operatorJs tok of
        Some opr \<Rightarrow> parseExpression_loop ts e (js @ primaryJs p @ opr)
      | None \<Rightarrow> Inl (unexpectedTokenError tok ts))"
  using assms(3) unfolding acceptedEnd_def
  by (simp add: parse_grammar(1) [OF assms(1,2)] operator_position split: option.splits)

lemma translate_wellFormed:
  assumes "wellFormedExpression x" and "tokenize formula = Inr (expressionTokens x @ [endTok])"
  shows "indicatorToJs formula = Inr (expressionJs x)"
proof -
  from tokenize_loop_shape [OF assms(2) [unfolded tokenize_def]]
  have "type endTok = END" by auto
  then have "parseExpression ([] @ endTok # rev (expressionTokens x)) END =
      Inr (expressionJs x, [] @ [endTok])"
    by (intro parse_wellFormed [OF assms(1)]) (simp_all add: acceptedEnd_def)
  then show ?thesis by (simp add: indicatorToJs_def assms(2))
qed


section \<open>The variant with a table of function names\<close>

text \<open>
  The second version of the module in the source has no field references and no array
  literals, writes the operators without spaces, reports only the unexpected token, and
  translates a call by looking the name up in the object \<open>func2jsfunc\<close>.  Its definitions
  carry the suffix \<open>2\<close>; its token types are those of the first version without \<open>Name\<close>,
  which its tokenizer never produces.
\<close>

definition firstToken2 :: "string \<Rightarrow> error + Token" where
  "firstToken2 s =
     (if length s = 0 then Inr (mkToken END [])
      else let c = hd s in
        if c = CHR ''('' then Inr (mkToken LParen ''('')
        else if c = CHR '')'' then Inr (mkToken RParen '')'')
        else if c = CHR ''['' then Inr (mkToken LBracket ''['')
        else if c = CHR '']'' then Inr (mkToken RBracket '']'')
        else if c = CHR '','' then Inr (mkToken Comma '','')
        else if c = CHR ''+'' then Inr (mkToken Plus ''+'')
        else if c = CHR ''-'' then Inr (mkToken Minus ''-'')
        else if c = CHR ''*'' then Inr (mkToken Mul ''*'')
        else if c = CHR ''/'' then Inr (mkToken Div ''/'')
        else if c = CHR ''<'' then
          (if followedByEq s then Inr (mkToken LessOrEq ''<='') else Inr (mkToken Less ''<''))
        else if c = CHR ''>'' then
          (if followedByEq s then Inr (mkToken GreaterOrEq ''>='') else Inr (mkToken Greater ''>''))
        else if c = CHR ''='' then Inr (mkToken Equal ''='')
        else if c = CHR ''!'' then
          (if followedByEq s then Inr (mkToken NotEqual ''!='') else Inr (mkToken Not ''!''))
        else if c = CHR 0x22 then
          (case matchString s of
             None \<Rightarrow> Inl (UnterminatedString s)
           | Some m \<Rightarrow> Inr (mkToken String m))
        else if isDigit c then
          (case matchNumber s of
             None \<Rightarrow> Inl Impossible
           | Some m \<Rightarrow> Inr (mkToken Number m))
        else
          (case matchIdent s of
             Some m \<Rightarrow> Inr (mkToken Indent m)
           | None \<Rightarrow>
               if isSpace (hd s) then Inl LeadingWhitespace
               else Inl (UnrecognizedToken s)))"

lemma firstToken2_text:
  assumes "firstToken2 s = Inr t"
  shows "prefix (text t) s \<and> (type t = END \<longleftrightarrow> text t = []) \<and> (type t = END \<longleftrightarrow> s = [])"
proof (cases s)
  case Nil
  with assms show ?thesis by (auto simp: firstToken2_def mkToken_def)
next
  case (Cons c cs)
  with assms show ?thesis
    by (cases cs)
       (auto simp: firstToken2_def mkToken_def Let_def followedByEq_def
             simp del: matchIdent.simps matchName.simps matchString.simps
             split: if_splits option.splits
             dest!: prefix_matchIdent prefix_matchString prefix_matchNumber)
qed

function tokenize2_loop :: "string \<Rightarrow> Token list \<Rightarrow> error + Token list" where
  "tokenize2_loop s toks =
     (case firstToken2 (trim s) of
        Inl e \<Rightarrow> Inl e
      | Inr t \<Rightarrow>
          if type t = END then Inr (toks @ [t])
          else tokenize2_loop (drop (length (text t)) (trim s)) (toks @ [t]))"
  by pat_completeness auto
termination
proof (relation "measure (\<lambda>(s, toks). length s)")
  show "wf (measure (\<lambda>(s, toks). length s))" by simp
next
  fix s :: string and toks :: "Token list" and t
  assume t: "firstToken2 (trim s) = Inr t" and ne: "type t \<noteq> END"
  from firstToken2_text [OF t] ne have "text t \<noteq> []" and "trim s \<noteq> []" by auto
  then have "length (drop (length (text t)) (trim s)) < length (trim s)" by simp
  with length_trim [of s]
  show "((drop (length (text t)) (trim s), toks @ [t]), (s, toks)) \<in> measure (\<lambda>(s, toks). length s)"
    by simp
qed

declare tokenize2_loop.simps [simp del]

definition tokenize2 :: "string \<Rightarrow> error + Token list" where
  "tokenize2 s = tokenize2_loop s []"

definition unexpectedTokenError2 :: "Token \<Rightarrow> error" where
  "unexpectedTokenError2 t = (if type t = END then UnexpectedEnd else UnexpectedToken (text t))"

definition consume2 :: "Token list \<Rightarrow> TokenType \<Rightarrow> error + Token list" where
  "consume2 revToks expectedType =
     (case pop revToks of
        None \<Rightarrow> Inl TypeError
      | Some (tok, rest) \<Rightarrow>
          if type tok \<noteq> expectedType then Inl (unexpectedTokenError2 tok) else Inr rest)"

lemma consume2_length: "consume2 revToks ty = Inr rest \<Longrightarrow> length rest < length revToks"
  by (auto simp: consume2_def split: option.splits if_splits dest: pop_length)

text \<open>
  \<open>func2jsfunc\<close> is an object literal with the one property \<open>SUM\<close>.  Reading
  \<^verbatim>\<open>func2jsfunc[name]\<close> finds that property, or else a property of \<^verbatim>\<open>Object.prototype\<close>,
  which every object literal inherits from, or else gives \<^verbatim>\<open>undefined\<close>.
\<close>

datatype jsValue = JsUndefined | JsString string | JsFunction string | JsObject

definition objectPrototype :: "string \<Rightarrow> jsValue" where
  "objectPrototype name =
     (if name = ''constructor'' then JsFunction ''Object''
      else if name \<in> {''hasOwnProperty'', ''isPrototypeOf'', ''propertyIsEnumerable'',
                      ''toLocaleString'', ''toString'', ''valueOf'',
                      ''__defineGetter__'', ''__defineSetter__'',
                      ''__lookupGetter__'', ''__lookupSetter__''}
      then JsFunction name
      else if name = ''__proto__'' then JsObject
      else JsUndefined)"

definition func2jsfunc :: "string \<Rightarrow> jsValue" where
  "func2jsfunc name =
     (if name = ''SUM'' then JsString ''sumConditionalOccurrences'' else objectPrototype name)"

text \<open>
  The string that \<^verbatim>\<open>js += '(' + ...\<close> starts from.  For a built-in function the exact
  text depends on the engine; the one of V8 is taken.
\<close>

fun toJsString :: "jsValue \<Rightarrow> string" where
  "toJsString JsUndefined = ''undefined''"
| "toJsString (JsString s) = s"
| "toJsString (JsFunction name) = ''function '' @ name @ ''() { [native code] }''"
| "toJsString JsObject = ''[object Object]''"

function parseExpression2 :: "Token list \<Rightarrow> TokenType \<Rightarrow> parsed"
  and parseExpression2_loop :: "Token list \<Rightarrow> TokenType \<Rightarrow> string \<Rightarrow> parsed"
  and parseExpression2_end :: "Token list \<Rightarrow> TokenType \<Rightarrow> string \<Rightarrow> parsed"
  and parseFunctionCall2 :: "string \<Rightarrow> Token list \<Rightarrow> parsed"
  and parseList2 :: "Token list \<Rightarrow> TokenType \<Rightarrow> parsed"
  and parseList2_loop :: "Token list \<Rightarrow> TokenType \<Rightarrow> string \<Rightarrow> parsed"
where
  "parseExpression2 revToks expectedEnd =
     (if expectedEnd \<noteq> END \<and> expectedEnd \<noteq> RParen \<and>
         expectedEnd \<noteq> Comma \<and> expectedEnd \<noteq> RBracket
      then Inl InvalidExpectedEnd
      else parseExpression2_loop revToks expectedEnd [])"
| "parseExpression2_loop revToks expectedEnd js =
     (case pop revToks of
        None \<Rightarrow> Inl TypeError
      | Some (tok, revToks1) \<Rightarrow>
          if type tok = Indent then
            (case peek revToks1 of
               None \<Rightarrow> Inl TypeError
             | Some next \<Rightarrow>
                 if type next = LParen then
                   (case parseFunctionCall2 (text tok) revToks1 of
                      Inl e \<Rightarrow> Inl e
                    | Inr (call, revToks2) \<Rightarrow>
                        parseExpression2_end revToks2 expectedEnd (js @ call))
                 else parseExpression2_end revToks1 expectedEnd (js @ text tok))
          else if type tok = String \<or> type tok = Number then
            parseExpression2_end revToks1 expectedEnd (js @ text tok)
          else if type tok = Plus \<or> type tok = Minus then
            (case peek revToks1 of
               None \<Rightarrow> Inl TypeError
             | Some next \<Rightarrow>
                 if type next = Plus \<or> type next = Minus
                 then Inl (unexpectedTokenError2 next)
                 else parseExpression2_loop revToks1 expectedEnd (js @ text tok))
          else if type tok = Not then
            parseExpression2_loop revToks1 expectedEnd (js @ ''!'')
          else if type tok = LParen then
            (case parseExpression2 revToks1 RParen of
               Inl e \<Rightarrow> Inl e
             | Inr (inner, revToks2) \<Rightarrow>
                 (case consume2 revToks2 RParen of
                    Inl e \<Rightarrow> Inl e
                  | Inr revToks3 \<Rightarrow>
                      parseExpression2_end revToks3 expectedEnd (js @ ''('' @ inner @ '')'')))
          else Inl (unexpectedTokenError2 tok))"
| "parseExpression2_end revToks expectedEnd js =
     (case peek revToks of
        None \<Rightarrow> Inl TypeError
      | Some next \<Rightarrow>
          if type next = expectedEnd \<or>
             expectedEnd = Comma \<and> type next = RParen \<or>
             expectedEnd = RBracket \<and> type next = Comma
          then Inr (js, revToks)
          else
            (case pop revToks of
               None \<Rightarrow> Inl TypeError
             | Some (tok, revToks1) \<Rightarrow>
                 if enumValue Plus \<le> enumValue (type tok) \<and>
                    enumValue (type tok) \<le> enumValue GreaterOrEq
                 then parseExpression2_loop revToks1 expectedEnd (js @ text tok)
                 else if type tok = Indent then
                   (if text tok = ''AND''
                    then parseExpression2_loop revToks1 expectedEnd (js @ ''&&'')
                    else if text tok = ''OR''
                    then parseExpression2_loop revToks1 expectedEnd (js @ ''||'')
                    else Inl (unexpectedTokenError2 tok))
                 else if type tok = Equal
                 then parseExpression2_loop revToks1 expectedEnd (js @ ''==='')
                 else if type tok = NotEqual
                 then parseExpression2_loop revToks1 expectedEnd (js @ ''!=='')
                 else Inl (unexpectedTokenError2 tok)))"
| "parseFunctionCall2 name revToks =
     (if func2jsfunc name = JsUndefined then Inl (UnsupportedFunction name)
      else
        (case consume2 revToks LParen of
           Inl e \<Rightarrow> Inl e
         | Inr revToks1 \<Rightarrow>
             (case parseList2 revToks1 Comma of
                Inl e \<Rightarrow> Inl e
              | Inr (args, revToks2) \<Rightarrow>
                  (case consume2 revToks2 RParen of
                     Inl e \<Rightarrow> Inl e
                   | Inr revToks3 \<Rightarrow>
                       Inr (toJsString (func2jsfunc name) @ ''('' @ args @ '')'', revToks3)))))"
| "parseList2 revToks expectedEnd =
     (if expectedEnd \<noteq> Comma \<and> expectedEnd \<noteq> RBracket then Inl InvalidExpectedEnd
      else
        (case peek revToks of
           None \<Rightarrow> Inl TypeError
         | Some next \<Rightarrow>
             if type next = RParen \<or> type next = RBracket then Inr ([], revToks)
             else parseList2_loop revToks expectedEnd []))"
| "parseList2_loop revToks expectedEnd js =
     (case parseExpression2 revToks expectedEnd of
        Inl e \<Rightarrow> Inl e
      | Inr (item, revToks1) \<Rightarrow>
          (case peek revToks1 of
             None \<Rightarrow> Inl TypeError
           | Some next \<Rightarrow>
               if type next = RParen \<or> type next = RBracket then Inr (js @ item, revToks1)
               else
                 (case consume2 revToks1 Comma of
                    Inl e \<Rightarrow> Inl e
                  | Inr revToks2 \<Rightarrow>
                      parseList2_loop revToks2 expectedEnd (js @ item @ '',''))))"
  by pat_completeness auto


abbreviation (input) "parse2_dom \<equiv> parseExpression2_parseExpression2_loop_parseExpression2_end_parseFunctionCall2_parseList2_parseList2_loop_dom"

lemma consume2_step: "consume2 ts ty = Inr r \<Longrightarrow> length ts \<le> k \<Longrightarrow> length r \<le> k"
  by (auto dest: consume2_length)

lemma consume2_less: "consume2 ts ty = Inr r \<Longrightarrow> length ts \<le> k \<Longrightarrow> length r < k"
  by (auto dest: consume2_length)

lemma parse2_length_partial:
  "parse2_dom (Inl (Inl (revToks, expectedEnd))) \<Longrightarrow>
     parseExpression2 revToks expectedEnd = Inr (r, rest) \<Longrightarrow> length rest \<le> length revToks"
  "parse2_dom (Inl (Inr (Inl (revToks, expectedEnd, js)))) \<Longrightarrow>
     parseExpression2_loop revToks expectedEnd js = Inr (r, rest) \<Longrightarrow> length rest \<le> length revToks"
  "parse2_dom (Inl (Inr (Inr (revToks, expectedEnd, js)))) \<Longrightarrow>
     parseExpression2_end revToks expectedEnd js = Inr (r, rest) \<Longrightarrow> length rest \<le> length revToks"
  "parse2_dom (Inr (Inl (name, revToks))) \<Longrightarrow>
     parseFunctionCall2 name revToks = Inr (r, rest) \<Longrightarrow> length rest \<le> length revToks"
  "parse2_dom (Inr (Inr (Inl (revToks, expectedEnd)))) \<Longrightarrow>
     parseList2 revToks expectedEnd = Inr (r, rest) \<Longrightarrow> length rest \<le> length revToks"
  "parse2_dom (Inr (Inr (Inr (revToks, expectedEnd, js)))) \<Longrightarrow>
     parseList2_loop revToks expectedEnd js = Inr (r, rest) \<Longrightarrow> length rest \<le> length revToks"
proof (induct arbitrary: r rest and r rest and r rest and r rest and r rest and r rest
    rule: parseExpression2_parseExpression2_loop_parseExpression2_end_parseFunctionCall2_parseList2_parseList2_loop.pinduct)
  case (1 revToks expectedEnd)
  note step = "1.hyps"(2-) [THEN le_trans]
  from "1.prems" "1.hyps"(1) show ?case
    apply (simp only: parseExpression2.psimps)
    apply (simp split: option.splits if_splits sum.splits prod.splits)
    apply (simp_all add: step pop_step consume2_step)
    done
next
  case (2 revToks expectedEnd js)
  note IH = "2.hyps"(2-) [OF _ refl]
  note step = IH(1,3-7) [THEN le_trans] IH(2) [OF _ _ _ _ _ refl, THEN le_trans]
    IH(8) [OF _ _ _ _ _ _ _ refl, THEN le_trans]
  from "2.prems" "2.hyps"(1) show ?case
    apply (simp only: parseExpression2_loop.psimps)
    apply (simp split: option.splits if_splits sum.splits prod.splits)
    apply (simp_all add: step pop_step consume2_step)
    done
next
  case (3 revToks expectedEnd js)
  note step = "3.hyps"(2-) [OF _ _ _ refl, THEN le_trans]
  from "3.prems" "3.hyps"(1) show ?case
    apply (simp only: parseExpression2_end.psimps)
    apply (simp split: option.splits if_splits sum.splits prod.splits)
    apply (simp_all add: step pop_step consume2_step)
    done
next
  case (4 name revToks)
  note step = "4.hyps"(2-) [THEN le_trans]
  from "4.prems" "4.hyps"(1) show ?case
    apply (simp only: parseFunctionCall2.psimps)
    apply (simp split: option.splits if_splits sum.splits prod.splits)
    apply (simp_all add: step pop_step consume2_step)
    done
next
  case (5 revToks expectedEnd)
  note step = "5.hyps"(2-) [THEN le_trans]
  from "5.prems" "5.hyps"(1) show ?case
    apply (simp only: parseList2.psimps)
    apply (simp split: option.splits if_splits sum.splits prod.splits)
    apply (simp_all add: step pop_step consume2_step)
    done
next
  case (6 revToks expectedEnd js)
  note step = "6.hyps"(2) [THEN le_trans] "6.hyps"(3) [OF _ refl, THEN le_trans]
  from "6.prems" "6.hyps"(1) show ?case
    apply (simp only: parseList2_loop.psimps)
    apply (simp split: option.splits if_splits sum.splits prod.splits)
    apply (simp_all add: step pop_step consume2_step)
    done
qed

termination parseExpression2
  apply (relation "measures
    [case_sum (case_sum (\<lambda>(ts, e). length ts)
                 (case_sum (\<lambda>(ts, e, js). length ts) (\<lambda>(ts, e, js). length ts)))
       (case_sum (\<lambda>(n, ts). length ts)
          (case_sum (\<lambda>(ts, e). length ts) (\<lambda>(ts, e, js). length ts))),
     case_sum (case_sum (\<lambda>x. 1) (case_sum (\<lambda>x. 0) (\<lambda>x. 0)))
       (case_sum (\<lambda>x. 0) (case_sum (\<lambda>x. 3) (\<lambda>x. 2)))]")
  apply simp_all
  apply (simp_all add: pop_less consume2_less pop_step consume2_step)
  apply (safe; simp add: pop_less consume2_less pop_step consume2_step
      parse2_length_partial [THEN le_trans] parse2_length_partial [THEN le_less_trans])+
  done

declare parseExpression2.simps [simp del] parseExpression2_loop.simps [simp del]
  parseExpression2_end.simps [simp del] parseFunctionCall2.simps [simp del]
  parseList2.simps [simp del] parseList2_loop.simps [simp del]

definition indicatorToJs2 :: "string \<Rightarrow> error + string" where
  "indicatorToJs2 formula =
     (case tokenize2 formula of
        Inl e \<Rightarrow> Inl e
      | Inr toks \<Rightarrow>
          (case parseExpression2 (rev toks) END of
             Inl e \<Rightarrow> Inl e
           | Inr (js, rest) \<Rightarrow> Inr js))"

lemma unsupported_function2:
  "type tok = Indent \<Longrightarrow> type nx = LParen \<Longrightarrow> func2jsfunc (text tok) = JsUndefined \<Longrightarrow>
     parseExpression2_loop (ts @ [nx, tok]) e js = Inl (UnsupportedFunction (text tok))"
  by (subst parseExpression2_loop.simps) (simp add: parseFunctionCall2.simps)

lemma parseList_empty:
  "type nx = RParen \<or> type nx = RBracket \<Longrightarrow> expectedEnd = Comma \<or> expectedEnd = RBracket \<Longrightarrow>
     parseList (ts @ [nx]) expectedEnd = Inr ([], ts @ [nx])"
  by (subst parseList.simps) auto

lemma parseList2_empty:
  "type nx = RParen \<or> type nx = RBracket \<Longrightarrow> expectedEnd = Comma \<or> expectedEnd = RBracket \<Longrightarrow>
     parseList2 (ts @ [nx]) expectedEnd = Inr ([], ts @ [nx])"
  by (subst parseList2.simps) auto

lemma parseList_invalid:
  "expectedEnd \<noteq> Comma \<Longrightarrow> expectedEnd \<noteq> RBracket \<Longrightarrow>
     parseList ts expectedEnd = Inl InvalidExpectedEnd \<and>
     parseList2 ts expectedEnd = Inl InvalidExpectedEnd"
  by (simp add: parseList.simps parseList2.simps)

lemma empty_call2:
  "func2jsfunc name \<noteq> JsUndefined \<Longrightarrow> type lp = LParen \<Longrightarrow> type rp = RParen \<Longrightarrow>
     parseFunctionCall2 name (ts @ [rp, lp]) = Inr (toJsString (func2jsfunc name) @ ''()'', ts)"
  by (subst parseFunctionCall2.simps) (simp add: consume2_def parseList2.simps)

lemma empty_call2_position:
  "type tok = Indent \<Longrightarrow> func2jsfunc (text tok) = JsString target \<Longrightarrow>
   type lp = LParen \<Longrightarrow> type rp = RParen \<Longrightarrow>
     parseExpression2_loop (ts @ [rp, lp, tok]) e js = parseExpression2_end ts e (js @ target @ ''()'')"
  using empty_call2 [of "text tok" lp rp ts]
  by (subst parseExpression2_loop.simps) simp

lemma empty_array_position:
  "type lb = LBracket \<Longrightarrow> type rb = RBracket \<Longrightarrow>
     parseExpression_loop (ts @ [rb, lb]) e js = parseExpression_end ts e (js @ ''[]'')"
  by (subst parseExpression_loop.simps) (simp add: parseList.simps consume_def)

section \<open>What a successful parse has consumed\<close>

definition countType :: "TokenType \<Rightarrow> Token list \<Rightarrow> nat" where
  "countType ty ts = length (filter (\<lambda>t. type t = ty) ts)"

text \<open>As many opening as closing parentheses, and as many opening as closing brackets.\<close>

definition balanced :: "Token list \<Rightarrow> bool" where
  "balanced ts =
     (countType LParen ts = countType RParen ts \<and> countType LBracket ts = countType RBracket ts)"





lemma countType_simps [simp]:
  "countType ty [] = 0"
  "countType ty (t # ts) = (if type t = ty then Suc (countType ty ts) else countType ty ts)"
  "countType ty (ts @ us) = countType ty ts + countType ty us"
  by (simp_all add: countType_def)





















section \<open>Where a successful parse stops\<close>



section \<open>No failure of the runtime, no invalid terminator\<close>

text \<open>The token array still holds the END token, at index 0.\<close>

definition wellFormed :: "Token list \<Rightarrow> bool" where
  "wellFormed ts = (ts \<noteq> [] \<and> type (hd ts) = END)"

text \<open>The errors that the parser reports about the formula.\<close>

fun isParseError :: "error \<Rightarrow> bool" where
  "isParseError UnexpectedEnd = True"
| "isParseError (UnexpectedToken m) = True"
| "isParseError (UnsupportedFunction name) = True"
| "isParseError e = False"

definition okResult :: "parsed \<Rightarrow> bool" where
  "okResult res = (case res of Inl e \<Rightarrow> isParseError e | Inr (r, rest) \<Rightarrow> wellFormed rest)"



lemma okResult_InlD: "res = Inl e \<Longrightarrow> okResult res \<Longrightarrow> isParseError e"
  by (simp add: okResult_def)

lemma okResult_InrD: "res = Inr (r, rest) \<Longrightarrow> okResult res \<Longrightarrow> wellFormed rest"
  by (simp add: okResult_def)






lemma isParseError_unexpected [simp]: "isParseError (unexpectedTokenError t ts)"
  by (simp add: unexpectedTokenError_def)





section \<open>The outcomes of the translation\<close>






lemma balanced_rev [simp]: "balanced (rev ts) = balanced ts"
  by (simp add: balanced_def countType_def rev_filter [symmetric])

lemma balanced_snoc_END [simp]: "type e = END \<Longrightarrow> balanced (ts @ [e]) = balanced ts"
  by (simp add: balanced_def)



section \<open>Verified properties\<close>

text \<open>
  C9: whenever \<open>tokenize\<close> returns, the sequence ends with an END token, END occurs
  nowhere else, and every token before it has a non-empty text that is a contiguous
  piece of the input.
\<close>

theorem tokenize_END_terminated:
  "tokenize s = Inr toks \<Longrightarrow>
     toks \<noteq> [] \<and> type (last toks) = END \<and>
     (\<forall>t\<in>set (butlast toks). type t \<noteq> END \<and> text t \<noteq> [] \<and> sublist (text t) s)"
  unfolding tokenize_def by (drule tokenize_loop_shape) auto

theorem tokenize_END_terminated_witness:
  "tokenize ''$a >= 10'' =
     Inr [mkToken Name ''$a'', mkToken GreaterOrEq ''>='', mkToken Number ''10'', mkToken END []] \<and>
   type (last [mkToken Name ''$a'', mkToken GreaterOrEq ''>='', mkToken Number ''10'', mkToken END []]) = END \<and>
   list_all (\<lambda>t. type t \<noteq> END \<and> text t \<noteq> [] \<and> sublist (text t) ''$a >= 10'')
     (butlast [mkToken Name ''$a'', mkToken GreaterOrEq ''>='', mkToken Number ''10'', mkToken END []])"
proof -
  have t: "tokenize ''$a >= 10'' =
     Inr [mkToken Name ''$a'', mkToken GreaterOrEq ''>='', mkToken Number ''10'', mkToken END []]"
    by code_simp
  from tokenize_END_terminated [OF t] t show ?thesis
    unfolding list_all_iff by blast
qed

text \<open>
  C2: a field reference is translated to its name, without the leading \<open>$\<close>, between \<open>**\<close>
  and \<open>**\<close>.  In the parser, a Name token at an operand position appends \<open>**\<close>, the text of the
  token without its first character and \<open>**\<close> to the output, whatever precedes and follows.
  In the tokenizer, \<open>$\<close> followed by an identifier \<open>name\<close> and by anything that does not go on
  the identifier gives the token \<open>$name\<close> and leaves the rest of the input to the loop.  So a
  formula that starts with \<open>$name\<close> translates to \<open>**name**\<close> followed by the translation of what
  comes after it; in particular \<open>$name\<close> alone gives \<open>**name**\<close> and \<open>$name + 1\<close> gives
  \<open>**name** + 1\<close>.
\<close>

theorem field_reference_placeholder:
  "(type tok = Name \<longrightarrow>
      parseExpression_loop (ts @ [tok]) e js =
        parseExpression_end ts e (js @ ''**'' @ drop 1 (text tok) @ ''**'')) \<and>
   (isIdentifier name \<and> (rest = [] \<or> \<not> isWord (hd rest)) \<longrightarrow>
      tokenize_loop (CHR ''$'' # name @ rest) acc =
        tokenize_loop rest (acc @ [mkToken Name (CHR ''$'' # name)])) \<and>
   (isIdentifier name \<and> (rest = [] \<or> \<not> isWord (hd rest)) \<and> tokenize rest = Inr toks \<longrightarrow>
      indicatorToJs (CHR ''$'' # name @ rest) =
        map_sum id fst (parseExpression_end (rev toks) END (''**'' @ name @ ''**''))) \<and>
   (isIdentifier name \<longrightarrow> indicatorToJs (CHR ''$'' # name) = Inr (''**'' @ name @ ''**'')) \<and>
   (isIdentifier name \<longrightarrow>
      indicatorToJs (CHR ''$'' # name @ '' + 1'') = Inr (''**'' @ name @ ''** + 1'')) \<and>
   indicatorToJs ''$age'' = Inr ''**age**'' \<and>
   indicatorToJs ''2 * ($a1 - $b_2) >= $c'' = Inr ''2 * (**a1** - **b_2**) >= **c**''"
proof -
  have t0: "tokenize [] = Inr [mkToken END []]"
    by (simp add: tokenize_def tokenize_loop_Nil)
  have t1: "tokenize '' + 1'' = Inr [mkToken Plus ''+'', mkToken Number ''1'', mkToken END []]"
    by code_simp
  have p0: "parseExpression_end [mkToken END []] END j = Inr (j, [mkToken END []])" for j
    by (simp add: parseExpression_end.simps mkToken_def)
  have p1: "parseExpression_end [mkToken END [], mkToken Number ''1'', mkToken Plus ''+''] END j =
      Inr (j @ '' + 1'', [mkToken END []])" for j
    by (simp add: parseExpression_end.simps parseExpression_loop.simps mkToken_def)
  have a: "isIdentifier name \<Longrightarrow> indicatorToJs (CHR ''$'' # name) = Inr (''**'' @ name @ ''**'')"
    using field_first [of name "[]", OF _ _ t0] by (simp add: p0)
  have b: "isIdentifier name \<Longrightarrow>
      indicatorToJs (CHR ''$'' # name @ '' + 1'') = Inr (''**'' @ name @ ''** + 1'')"
    using field_first [of name "'' + 1''", OF _ _ t1]
    by (simp add: p1 isWord_def isIdentStart_def isDigit_def charCode_def)
  have c: "indicatorToJs ''$age'' = Inr ''**age**''" by code_simp
  have d: "indicatorToJs ''2 * ($a1 - $b_2) >= $c'' = Inr ''2 * (**a1** - **b_2**) >= **c**''"
    by code_simp
  from a b c d show ?thesis
    using parse_name [of tok ts e js] tokenize_loop_name [of name rest acc]
      field_first [of name rest toks]
    by blast
qed

theorem field_reference_placeholder_witness:
  "parseExpression_loop
     [mkToken END [], mkToken Number ''1'', mkToken Plus ''+'', mkToken Name ''$age''] END [] =
     parseExpression_end [mkToken END [], mkToken Number ''1'', mkToken Plus ''+''] END ''**age**'' \<and>
   isIdentifier ''age'' \<and>
   tokenize_loop ''$age + 1'' [] = tokenize_loop '' + 1'' [mkToken Name ''$age''] \<and>
   tokenize '' + 1'' = Inr [mkToken Plus ''+'', mkToken Number ''1'', mkToken END []] \<and>
   indicatorToJs ''$age + 1'' = Inr ''**age** + 1'' \<and>
   indicatorToJs ''$age'' = Inr ''**age**''"
proof -
  have i: "isIdentifier ''age''" by code_simp
  have w: "\<not> isWord (hd '' + 1'')" by code_simp
  have t1: "tokenize '' + 1'' = Inr [mkToken Plus ''+'', mkToken Number ''1'', mkToken END []]"
    by code_simp
  have pe: "map_sum id fst (parseExpression_end
      [mkToken END [], mkToken Number ''1'', mkToken Plus ''+''] END ''**age**'') = Inr ''**age** + 1''"
    by code_simp
  from field_reference_placeholder
    [of "mkToken Name ''$age''" "[mkToken END [], mkToken Number ''1'', mkToken Plus ''+'']" END "[]"
        "''age''" "'' + 1''" "[]" "[mkToken Plus ''+'', mkToken Number ''1'', mkToken END []]"]
    i w t1 pe
  show ?thesis by (simp add: mkToken_def)
qed

text \<open>
  C10: a logical negation at an operand position is emitted and the loop goes on to the
  next operand without looking at the token that follows, so any number of consecutive
  negations is accepted: \<open>!!x\<close> translates to \<open>!!x\<close>, and so does every longer run.
\<close>

theorem repeated_negation_accepted:
  "(type tok = Not \<longrightarrow>
      parseExpression_loop (ts @ [tok]) e js = parseExpression_loop ts e (js @ ''!'')) \<and>
   indicatorToJs (replicate n (CHR ''!'') @ ''x'') = Inr (replicate n (CHR ''!'') @ ''x'')"
proof -
  have "parseExpression (rev (replicate n (mkToken Not ''!'') @ [mkToken Indent ''x'', mkToken END []])) END =
        Inr (replicate n (CHR ''!'') @ ''x'', [mkToken END []])"
    by (simp add: parseExpression.simps parse_nots [of "[a, b]" for a b, simplified])
       (simp add: parseExpression_loop.simps parseExpression_end.simps mkToken_def)
  then show ?thesis
    by (simp add: indicatorToJs_def tokenize_def tokenize_loop_nots parse_not)
qed

theorem repeated_negation_accepted_witness:
  "parseExpression_loop [mkToken END [], mkToken Indent ''x'', mkToken Not ''!'', mkToken Not ''!''] END [] =
     parseExpression_loop [mkToken END [], mkToken Indent ''x'', mkToken Not ''!''] END ''!'' \<and>
   indicatorToJs ''!!x'' = Inr ''!!x''"
  using repeated_negation_accepted
    [of "mkToken Not ''!''" "[mkToken END [], mkToken Indent ''x'', mkToken Not ''!'']" END "[]" 2]
  by (simp add: mkToken_def numeral_2_eq_2)

text \<open>
  C8: a sign at an operand position followed by another sign is reported as an unexpected
  token, the message printing the tokens from the second sign on; a sign followed by
  anything else is emitted and parsing goes on with the operand.  So \<open>--1\<close> and \<open>+-x\<close>
  are errors while \<open>-1\<close> and \<open>+x\<close> are passed through.
\<close>

theorem consecutive_signs_rejected:
  "((type tok = Plus \<or> type tok = Minus) \<and> (type nx = Plus \<or> type nx = Minus) \<longrightarrow>
      parseExpression_loop (ts @ [nx, tok]) e js =
        Inl (UnexpectedToken (printTokens (ts @ [nx])))) \<and>
   ((type tok = Plus \<or> type tok = Minus) \<and> \<not> (type nx = Plus \<or> type nx = Minus) \<longrightarrow>
      parseExpression_loop (ts @ [nx, tok]) e js =
        parseExpression_loop (ts @ [nx]) e (js @ text tok)) \<and>
   indicatorToJs ''--1'' = Inl (UnexpectedToken '' - 1'') \<and>
   indicatorToJs ''+-x'' = Inl (UnexpectedToken '' - x'') \<and>
   indicatorToJs ''-1'' = Inr ''-1'' \<and>
   indicatorToJs ''+x'' = Inr ''+x''"
proof -
  have "indicatorToJs ''--1'' = Inl (UnexpectedToken '' - 1'')" by code_simp
  moreover have "indicatorToJs ''+-x'' = Inl (UnexpectedToken '' - x'')" by code_simp
  moreover have "indicatorToJs ''-1'' = Inr ''-1''" by code_simp
  moreover have "indicatorToJs ''+x'' = Inr ''+x''" by code_simp
  ultimately show ?thesis using sign_twice sign_once by blast
qed

theorem consecutive_signs_rejected_witness:
  "parseExpression_loop [mkToken END [], mkToken Number ''1'', mkToken Minus ''-'', mkToken Plus ''+''] END [] =
     Inl (UnexpectedToken '' - 1'') \<and>
   parseExpression_loop [mkToken END [], mkToken Number ''1'', mkToken Minus ''-''] END [] =
     parseExpression_loop [mkToken END [], mkToken Number ''1''] END ''-''"
proof -
  have p: "printTokens [mkToken END [], mkToken Number ''1'', mkToken Minus ''-''] = '' - 1''"
    by code_simp
  from consecutive_signs_rejected
    [of "mkToken Plus ''+''" "mkToken Minus ''-''" "[mkToken END [], mkToken Number ''1'']" END "[]"]
  have a: "parseExpression_loop [mkToken END [], mkToken Number ''1'', mkToken Minus ''-'', mkToken Plus ''+''] END [] =
     Inl (UnexpectedToken '' - 1'')"
    by (simp add: mkToken_def p [unfolded mkToken_def])
  from consecutive_signs_rejected
    [of "mkToken Minus ''-''" "mkToken Number ''1''" "[mkToken END []]" END "[]"]
  have b: "parseExpression_loop [mkToken END [], mkToken Number ''1'', mkToken Minus ''-''] END [] =
     parseExpression_loop [mkToken END [], mkToken Number ''1''] END ''-''"
    by (simp add: mkToken_def)
  from a b show ?thesis by simp
qed

text \<open>
  C1: at an operator position that is not an accepted end of the expression, the token is
  translated by the operator table \<open>operatorJs\<close>: the operators from \<open>+\<close> to \<open>>=\<close> keep
  their own text, \<open>AND\<close>, \<open>OR\<close>, \<open>=\<close> and \<open>!=\<close> become \<open>&&\<close>, \<open>||\<close>, \<open>===\<close> and \<open>!==\<close>, and
  any other token is reported by \<open>unexpectedTokenError\<close>.  After any primary of the grammar the
  output is what was there before, the translation of the primary, then the operator.  For
  every expression of the grammar, with parentheses, lists, calls and unary operators nested
  to any depth, the parser returns the translation \<open>expressionJs\<close>, in which every operator
  stands between the translations of its left and right operands, and stops before the
  terminator; so does the entry point when the tokens of the formula are those of such an
  expression.
\<close>

theorem binary_operators_translated:
  "(\<not> (type tok = e \<or> e = Comma \<and> type tok = RParen \<or> e = RBracket \<and> type tok = Comma) \<longrightarrow>
      parseExpression_end (ts @ [tok]) e js =
        (case operatorJs tok of
           Some opr \<Rightarrow> parseExpression_loop ts e (js @ opr)
         | None \<Rightarrow> Inl (unexpectedTokenError tok ts))) \<and>
   (wellFormedPrimary p \<and> type tok \<noteq> LParen \<and> \<not> acceptedEnd e (type tok) \<longrightarrow>
      parseExpression_loop (ts @ tok # rev (primaryTokens p)) e js =
        (case operatorJs tok of
           Some opr \<Rightarrow> parseExpression_loop ts e (js @ primaryJs p @ opr)
         | None \<Rightarrow> Inl (unexpectedTokenError tok ts))) \<and>
   (wellFormedExpression x \<and> expectedEnd \<in> {END, RParen, Comma, RBracket} \<and>
    acceptedEnd expectedEnd (type nx) \<longrightarrow>
      parseExpression (rest @ nx # rev (expressionTokens x)) expectedEnd =
        Inr (expressionJs x, rest @ [nx])) \<and>
   (wellFormedExpression x \<and> tokenize formula = Inr (expressionTokens x @ [endTok]) \<longrightarrow>
      indicatorToJs formula = Inr (expressionJs x)) \<and>
   indicatorToJs ''1 + 2 - 3 * 4 / 5 < 6 <= 7 > 8 >= 9'' = Inr ''1 + 2 - 3 * 4 / 5 < 6 <= 7 > 8 >= 9'' \<and>
   indicatorToJs ''a = b'' = Inr ''a === b'' \<and>
   indicatorToJs ''a != b'' = Inr ''a !== b'' \<and>
   indicatorToJs ''a AND b'' = Inr ''a && b'' \<and>
   indicatorToJs ''a OR b'' = Inr ''a || b'' \<and>
   indicatorToJs ''a + (b * c) - d'' = Inr ''a + (b * c) - d'' \<and>
   indicatorToJs ''(a < 1 OR -b >= 2) AND INCLUDES([1, 2 / 3], $x - 1) != !c'' =
     Inr ''(a < 1 || -b >= 2) && ([1, 2 / 3]).includes(**x** - 1) !== !c'' \<and>
   indicatorToJs ''1 ! 2'' = Inl (UnexpectedToken ''!2'') \<and>
   indicatorToJs ''(a + b) c'' = Inl (UnexpectedToken ''c'') \<and>
   indicatorToJs ''a AND b NOT c'' = Inl (UnexpectedToken ''NOTc'')"
proof -
  have "indicatorToJs ''1 + 2 - 3 * 4 / 5 < 6 <= 7 > 8 >= 9'' = Inr ''1 + 2 - 3 * 4 / 5 < 6 <= 7 > 8 >= 9''"
    by code_simp
  moreover have "indicatorToJs ''a = b'' = Inr ''a === b''" by code_simp
  moreover have "indicatorToJs ''a != b'' = Inr ''a !== b''" by code_simp
  moreover have "indicatorToJs ''a AND b'' = Inr ''a && b''" by code_simp
  moreover have "indicatorToJs ''a OR b'' = Inr ''a || b''" by code_simp
  moreover have "indicatorToJs ''a + (b * c) - d'' = Inr ''a + (b * c) - d''" by code_simp
  moreover have "indicatorToJs ''(a < 1 OR -b >= 2) AND INCLUDES([1, 2 / 3], $x - 1) != !c'' =
     Inr ''(a < 1 || -b >= 2) && ([1, 2 / 3]).includes(**x** - 1) !== !c''" by code_simp
  moreover have "indicatorToJs ''1 ! 2'' = Inl (UnexpectedToken ''!2'')" by code_simp
  moreover have "indicatorToJs ''(a + b) c'' = Inl (UnexpectedToken ''c'')" by code_simp
  moreover have "indicatorToJs ''a AND b NOT c'' = Inl (UnexpectedToken ''NOTc'')" by code_simp
  ultimately show ?thesis
    using operator_position [of tok e ts js] primary_then_token [of p tok e ts js]
      parse_wellFormed [of x expectedEnd nx rest] translate_wellFormed [of x formula endTok]
    by blast
qed

theorem binary_operators_translated_witness:
  "parseExpression_end [mkToken END [], mkToken Number ''2'', mkToken LessOrEq ''<=''] END [] =
     parseExpression_loop [mkToken END [], mkToken Number ''2''] END '' <= '' \<and>
   wellFormedPrimary (Leaf (mkToken Number ''1'')) \<and>
   parseExpression_loop
     [mkToken END [], mkToken Number ''2'', mkToken LessOrEq ''<='', mkToken Number ''1''] END [] =
     parseExpression_loop [mkToken END [], mkToken Number ''2''] END ''1 <= '' \<and>
   wellFormedExpression
     (Binary (Leaf (mkToken Indent ''a'')) (mkToken Plus ''+'')
        (Binary (Parenthesized (mkToken LParen ''('')
                   (Binary (Leaf (mkToken Indent ''b'')) (mkToken Mul ''*'')
                      (Primary (Leaf (mkToken Indent ''c''))))
                   (mkToken RParen '')''))
           (mkToken Minus ''-'') (Primary (Leaf (mkToken Name ''$d''))))) \<and>
   tokenize ''a + (b * c) - $d'' =
     Inr [mkToken Indent ''a'', mkToken Plus ''+'', mkToken LParen ''('', mkToken Indent ''b'',
          mkToken Mul ''*'', mkToken Indent ''c'', mkToken RParen '')'', mkToken Minus ''-'',
          mkToken Name ''$d'', mkToken END []] \<and>
   parseExpression
     [mkToken END [], mkToken Name ''$d'', mkToken Minus ''-'', mkToken RParen '')'',
      mkToken Indent ''c'', mkToken Mul ''*'', mkToken Indent ''b'', mkToken LParen ''('',
      mkToken Plus ''+'', mkToken Indent ''a''] END =
     Inr (''a + (b * c) - **d**'', [mkToken END []]) \<and>
   indicatorToJs ''a + (b * c) - $d'' = Inr ''a + (b * c) - **d**''"
proof -
  let ?x = "Binary (Leaf (mkToken Indent ''a'')) (mkToken Plus ''+'')
        (Binary (Parenthesized (mkToken LParen ''('')
                   (Binary (Leaf (mkToken Indent ''b'')) (mkToken Mul ''*'')
                      (Primary (Leaf (mkToken Indent ''c''))))
                   (mkToken RParen '')''))
           (mkToken Minus ''-'') (Primary (Leaf (mkToken Name ''$d''))))"
  have o: "operatorJs (mkToken LessOrEq ''<='') = Some '' <= ''"
    "operatorJs (mkToken Plus ''+'') = Some '' + ''"
    "operatorJs (mkToken Mul ''*'') = Some '' * ''"
    "operatorJs (mkToken Minus ''-'') = Some '' - ''"
    by (simp_all add: operatorJs_def mkToken_def)
  have wp: "wellFormedPrimary (Leaf (mkToken Number ''1''))" by (simp add: mkToken_def)
  have wx: "wellFormedExpression ?x" by (simp add: o) (simp add: mkToken_def)
  have t: "tokenize ''a + (b * c) - $d'' =
     Inr [mkToken Indent ''a'', mkToken Plus ''+'', mkToken LParen ''('', mkToken Indent ''b'',
          mkToken Mul ''*'', mkToken Indent ''c'', mkToken RParen '')'', mkToken Minus ''-'',
          mkToken Name ''$d'', mkToken END []]"
    by code_simp
  have t': "tokenize ''a + (b * c) - $d'' = Inr (expressionTokens ?x @ [mkToken END []])"
    by (simp add: t)
  have j: "expressionJs ?x = ''a + (b * c) - **d**''"
    by (simp add: o) (simp add: mkToken_def)
  from binary_operators_translated
    [of "mkToken LessOrEq ''<=''" END "[mkToken END [], mkToken Number ''2'']" "[]"
        "Leaf (mkToken Number ''1'')" ?x END "mkToken END []" "[]"
        "''a + (b * c) - $d''" "mkToken END []"]
    wp wx t'
  show ?thesis
    by (simp add: o j t acceptedEnd_def) (simp add: mkToken_def)
qed

text \<open>
  C3: \<open>COUNTFORMS(Form)\<close> translates to \<open>countOccurrences(Form, [])\<close>, for every identifier
  \<open>Form\<close>; with a condition after a comma the translation is
  \<open>countConditionalOccurrences(Form, [], `c`)\<close>, where \<open>c\<close> is the translation of the condition,
  put between backquotes.
\<close>

theorem countforms_translation:
  "(isIdentifier form \<longrightarrow>
      indicatorToJs (''COUNTFORMS('' @ form @ '')'') = Inr (''countOccurrences('' @ form @ '', [])'')) \<and>
   (type opening = LParen \<and> type formTok = Indent \<and> type closing = RParen \<longrightarrow>
      parseFunctionCall ''COUNTFORMS'' (ts @ [closing, formTok, opening]) =
        Inr (''countOccurrences('' @ text formTok @ '', [])'', ts)) \<and>
   (type opening = LParen \<and> type formTok = Indent \<and> type sep = Comma \<and> type closing = RParen \<and>
    parseExpression ts Comma = Inr (condition, rest @ [closing]) \<longrightarrow>
      parseFunctionCall ''COUNTFORMS'' (ts @ [sep, formTok, opening]) =
        Inr (''countConditionalOccurrences('' @ text formTok @ '', [], `'' @ condition @ ''`)'', rest)) \<and>
   indicatorToJs ''COUNTFORMS(F, $a > 1 AND $b = 2)'' =
     Inr ''countConditionalOccurrences(F, [], `**a** > 1 && **b** === 2`)''"
proof -
  have "indicatorToJs ''COUNTFORMS(F, $a > 1 AND $b = 2)'' =
     Inr ''countConditionalOccurrences(F, [], `**a** > 1 && **b** === 2`)''"
    by code_simp
  then show ?thesis
    using countforms_bare [of form] parseCountForms_bare [of "opening" formTok closing ts]
      parseCountForms_condition [of "opening" formTok sep closing ts condition rest]
    by blast
qed

theorem countforms_translation_witness:
  "isIdentifier ''Visit'' \<and>
   indicatorToJs ''COUNTFORMS(Visit)'' = Inr ''countOccurrences(Visit, [])'' \<and>
   parseFunctionCall ''COUNTFORMS''
     [mkToken END [], mkToken RParen '')'', mkToken Indent ''Visit'', mkToken LParen ''(''] =
     Inr (''countOccurrences(Visit, [])'', [mkToken END []]) \<and>
   parseExpression [mkToken END [], mkToken RParen '')'', mkToken Name ''$ok''] Comma =
     Inr (''**ok**'', [mkToken END [], mkToken RParen '')'']) \<and>
   parseFunctionCall ''COUNTFORMS''
     [mkToken END [], mkToken RParen '')'', mkToken Name ''$ok'', mkToken Comma '','',
      mkToken Indent ''Visit'', mkToken LParen ''(''] =
     Inr (''countConditionalOccurrences(Visit, [], `**ok**`)'', [mkToken END []])"
proof -
  have i: "isIdentifier ''Visit''" by code_simp
  have p: "parseExpression [mkToken END [], mkToken RParen '')'', mkToken Name ''$ok''] Comma =
     Inr (''**ok**'', [mkToken END [], mkToken RParen '')''])"
    by code_simp
  from countforms_translation
    [of "''Visit''" "mkToken LParen ''(''" "mkToken Indent ''Visit''" "mkToken RParen '')''"
        "[mkToken END []]"] i
  have a: "indicatorToJs ''COUNTFORMS(Visit)'' = Inr ''countOccurrences(Visit, [])''"
    and b: "parseFunctionCall ''COUNTFORMS''
     [mkToken END [], mkToken RParen '')'', mkToken Indent ''Visit'', mkToken LParen ''(''] =
     Inr (''countOccurrences(Visit, [])'', [mkToken END []])"
    by (simp_all add: mkToken_def)
  from countforms_translation
    [of _ "mkToken LParen ''(''" "mkToken Indent ''Visit''" "mkToken RParen '')''"
        "[mkToken END [], mkToken RParen '')'', mkToken Name ''$ok'']" "mkToken Comma '',''"
        "''**ok**''" "[mkToken END []]"] p
  have c: "parseFunctionCall ''COUNTFORMS''
     [mkToken END [], mkToken RParen '')'', mkToken Name ''$ok'', mkToken Comma '','',
      mkToken Indent ''Visit'', mkToken LParen ''(''] =
     Inr (''countConditionalOccurrences(Visit, [], `**ok**`)'', [mkToken END []])"
    by (simp add: mkToken_def)
  from i a b p c show ?thesis by simp
qed

text \<open>
  C4: \<open>parseFunctionCall\<close> succeeds on \<open>INCLUDES\<close> exactly when the tokens are an opening
  parenthesis, an expression, a comma, an expression and a closing parenthesis, and the
  result is then \<open>(L).includes(I)\<close> for the translations \<open>L\<close> and \<open>I\<close> of the two expressions.
  With no, one or three arguments, or without the closing parenthesis, it is an error.
\<close>

theorem includes_translation:
  "((parseFunctionCall ''INCLUDES'' revToks = Inr (js, rest)) =
     (\<exists>opening ts1 arg1 sep ts2 arg2 closing.
        revToks = ts1 @ [opening] \<and> type opening = LParen \<and>
        parseExpression ts1 Comma = Inr (arg1, ts2 @ [sep]) \<and> type sep = Comma \<and>
        parseExpression ts2 Comma = Inr (arg2, rest @ [closing]) \<and> type closing = RParen \<and>
        js = ''('' @ arg1 @ '').includes('' @ arg2 @ '')'')) \<and>
   indicatorToJs ''INCLUDES([1, 2], $x + 1)'' = Inr ''([1, 2]).includes(**x** + 1)'' \<and>
   indicatorToJs ''INCLUDES()'' = Inl (UnexpectedToken '')'') \<and>
   indicatorToJs ''INCLUDES($x)'' = Inl (UnexpectedToken '')'') \<and>
   indicatorToJs ''INCLUDES(1, 2, 3)'' = Inl (UnexpectedToken '', 3)'') \<and>
   indicatorToJs ''INCLUDES(1, 2'' = Inl UnexpectedEnd"
proof -
  have "indicatorToJs ''INCLUDES([1, 2], $x + 1)'' = Inr ''([1, 2]).includes(**x** + 1)''"
    by code_simp
  moreover have "indicatorToJs ''INCLUDES()'' = Inl (UnexpectedToken '')'')" by code_simp
  moreover have "indicatorToJs ''INCLUDES($x)'' = Inl (UnexpectedToken '')'')" by code_simp
  moreover have "indicatorToJs ''INCLUDES(1, 2, 3)'' = Inl (UnexpectedToken '', 3)'')" by code_simp
  moreover have "indicatorToJs ''INCLUDES(1, 2'' = Inl UnexpectedEnd" by code_simp
  ultimately show ?thesis
    using parseFunctionCall_INCLUDES [of revToks js rest] by blast
qed

theorem includes_translation_witness:
  "parseFunctionCall ''INCLUDES''
     [mkToken END [], mkToken RParen '')'', mkToken Number ''2'', mkToken Comma '','',
      mkToken Name ''$x'', mkToken LParen ''(''] =
     Inr (''(**x**).includes(2)'', [mkToken END []])"
proof -
  have a: "parseExpression
     [mkToken END [], mkToken RParen '')'', mkToken Number ''2'', mkToken Comma '','', mkToken Name ''$x''] Comma =
     Inr (''**x**'', [mkToken END [], mkToken RParen '')'', mkToken Number ''2''] @ [mkToken Comma '','']) \<and>
     type (mkToken Comma '','') = Comma"
    by code_simp
  have b: "parseExpression [mkToken END [], mkToken RParen '')'', mkToken Number ''2''] Comma =
     Inr (''2'', [mkToken END []] @ [mkToken RParen '')'']) \<and>
     type (mkToken RParen '')'') = RParen \<and> type (mkToken LParen ''('') = LParen"
    by code_simp
  have "\<exists>opening ts1 arg1 sep ts2 arg2 closing.
        [mkToken END [], mkToken RParen '')'', mkToken Number ''2'', mkToken Comma '','',
         mkToken Name ''$x'', mkToken LParen ''(''] = ts1 @ [opening] \<and> type opening = LParen \<and>
        parseExpression ts1 Comma = Inr (arg1, ts2 @ [sep]) \<and> type sep = Comma \<and>
        parseExpression ts2 Comma = Inr (arg2, [mkToken END []] @ [closing]) \<and> type closing = RParen \<and>
        ''(**x**).includes(2)'' = ''('' @ arg1 @ '').includes('' @ arg2 @ '')''"
    using a b
    by (intro exI [of _ "mkToken LParen ''(''"]
          exI [of _ "[mkToken END [], mkToken RParen '')'', mkToken Number ''2'', mkToken Comma '','', mkToken Name ''$x'']"]
          exI [of _ "''**x**''"] exI [of _ "mkToken Comma '',''"]
          exI [of _ "[mkToken END [], mkToken RParen '')'', mkToken Number ''2'']"]
          exI [of _ "''2''"] exI [of _ "mkToken RParen '')''"]) simp
  with includes_translation show ?thesis by blast
qed

text \<open>
  C5: in the first version every call of a name other than \<open>INCLUDES\<close>, \<open>PERCENT\<close> and
  \<open>COUNTFORMS\<close> is the error \<open>unsupported function\<close>.  In the second version the error is raised
  when \<^verbatim>\<open>func2jsfunc[name]\<close> is \<^verbatim>\<open>undefined\<close>; a name that the table does not list but that
  \<^verbatim>\<open>Object.prototype\<close> defines, such as \<open>toString\<close>, is not reported: the call goes to the
  output, headed by the text of the inherited function.
\<close>

theorem unlisted_function_call:
  "(type tok = Indent \<and> type nx = LParen \<and>
    text tok \<notin> {''INCLUDES'', ''PERCENT'', ''COUNTFORMS''} \<longrightarrow>
      parseExpression_loop (ts @ [nx, tok]) e js = Inl (UnsupportedFunction (text tok))) \<and>
   (type tok = Indent \<and> type nx = LParen \<and> func2jsfunc (text tok) = JsUndefined \<longrightarrow>
      parseExpression2_loop (ts @ [nx, tok]) e js = Inl (UnsupportedFunction (text tok))) \<and>
   indicatorToJs ''FOO(1)'' = Inl (UnsupportedFunction ''FOO'') \<and>
   indicatorToJs ''toString(1)'' = Inl (UnsupportedFunction ''toString'') \<and>
   indicatorToJs2 ''FOO(1)'' = Inl (UnsupportedFunction ''FOO'') \<and>
   indicatorToJs2 ''SUM(1)'' = Inr ''sumConditionalOccurrences(1)'' \<and>
   indicatorToJs2 ''toString(1)'' = Inr ''function toString() { [native code] }(1)'' \<and>
   indicatorToJs2 ''1 + constructor(2, 3)'' = Inr ''1+function Object() { [native code] }(2,3)''"
proof -
  have "indicatorToJs ''FOO(1)'' = Inl (UnsupportedFunction ''FOO'')" by code_simp
  moreover have "indicatorToJs ''toString(1)'' = Inl (UnsupportedFunction ''toString'')"
    by code_simp
  moreover have "indicatorToJs2 ''FOO(1)'' = Inl (UnsupportedFunction ''FOO'')" by code_simp
  moreover have "indicatorToJs2 ''SUM(1)'' = Inr ''sumConditionalOccurrences(1)''" by code_simp
  moreover have "indicatorToJs2 ''toString(1)'' = Inr ''function toString() { [native code] }(1)''"
    by code_simp
  moreover have "indicatorToJs2 ''1 + constructor(2, 3)'' =
      Inr ''1+function Object() { [native code] }(2,3)''"
    by code_simp
  ultimately show ?thesis
    using unsupported_function [of tok nx ts e js] unsupported_function2 [of tok nx ts e js]
    by auto
qed

theorem unlisted_function_call_witness:
  "parseExpression_loop
     [mkToken END [], mkToken RParen '')'', mkToken LParen ''('', mkToken Indent ''FOO''] END [] =
     Inl (UnsupportedFunction ''FOO'') \<and>
   func2jsfunc ''FOO'' = JsUndefined \<and>
   parseExpression2_loop
     [mkToken END [], mkToken RParen '')'', mkToken LParen ''('', mkToken Indent ''FOO''] END [] =
     Inl (UnsupportedFunction ''FOO'')"
proof -
  have u: "func2jsfunc ''FOO'' = JsUndefined" by code_simp
  from unlisted_function_call
    [of "mkToken Indent ''FOO''" "mkToken LParen ''(''" "[mkToken END [], mkToken RParen '')'']"
        END "[]"] u
  show ?thesis by (simp add: mkToken_def)
qed

text \<open>
  C6: a call with an empty argument list of a function that the table lists translates to
  the name of the table followed by \<open>()\<close>, and the empty array literal \<open>[]\<close> of the first version
  translates to \<open>[]\<close>, both wherever a primary can stand.  \<open>parseList\<close>, called with \<open>Comma\<close> or
  \<open>RBracket\<close> as it always is, returns the empty string and consumes nothing when the next token
  is \<open>)\<close> or \<open>]\<close>; with any other terminator it throws \<open>invalid expectedEnd\<close> before it looks at
  the tokens.
\<close>

theorem empty_list_translation:
  "((type nx = RParen \<or> type nx = RBracket) \<and> (expectedEnd = Comma \<or> expectedEnd = RBracket) \<longrightarrow>
      parseList (ts @ [nx]) expectedEnd = Inr ([], ts @ [nx]) \<and>
      parseList2 (ts @ [nx]) expectedEnd = Inr ([], ts @ [nx])) \<and>
   (otherEnd \<noteq> Comma \<and> otherEnd \<noteq> RBracket \<longrightarrow>
      parseList revToks otherEnd = Inl InvalidExpectedEnd \<and>
      parseList2 revToks otherEnd = Inl InvalidExpectedEnd) \<and>
   (func2jsfunc name = JsString target \<and> type lp = LParen \<and> type rp = RParen \<longrightarrow>
      parseFunctionCall2 name (ts @ [rp, lp]) = Inr (target @ ''()'', ts)) \<and>
   (type tok = Indent \<and> func2jsfunc (text tok) = JsString target \<and>
    type lp = LParen \<and> type rp = RParen \<longrightarrow>
      parseExpression2_loop (ts @ [rp, lp, tok]) e js =
        parseExpression2_end ts e (js @ target @ ''()'')) \<and>
   (type lb = LBracket \<and> type rb = RBracket \<longrightarrow>
      parseExpression_loop (ts @ [rb, lb]) e js = parseExpression_end ts e (js @ ''[]'')) \<and>
   indicatorToJs2 ''SUM()'' = Inr ''sumConditionalOccurrences()'' \<and>
   indicatorToJs2 ''1 + SUM ( ) * 2'' = Inr ''1+sumConditionalOccurrences()*2'' \<and>
   indicatorToJs ''[]'' = Inr ''[]'' \<and>
   indicatorToJs ''INCLUDES([ ], $x)'' = Inr ''([]).includes(**x**)''"
proof -
  have "indicatorToJs2 ''SUM()'' = Inr ''sumConditionalOccurrences()''" by code_simp
  moreover have "indicatorToJs2 ''1 + SUM ( ) * 2'' = Inr ''1+sumConditionalOccurrences()*2''"
    by code_simp
  moreover have "indicatorToJs ''[]'' = Inr ''[]''" by code_simp
  moreover have "indicatorToJs ''INCLUDES([ ], $x)'' = Inr ''([]).includes(**x**)''" by code_simp
  ultimately show ?thesis
    using parseList_empty [of nx expectedEnd ts] parseList2_empty [of nx expectedEnd ts]
      parseList_invalid [of otherEnd revToks] empty_call2 [of name lp rp ts]
      empty_call2_position [of tok target lp rp ts e js] empty_array_position [of lb rb ts e js]
    by auto
qed

theorem empty_list_translation_witness:
  "parseList [mkToken END [], mkToken RBracket '']''] RBracket =
     Inr ([], [mkToken END [], mkToken RBracket '']'']) \<and>
   parseList2 [mkToken END [], mkToken RBracket '']''] RBracket =
     Inr ([], [mkToken END [], mkToken RBracket '']'']) \<and>
   parseList [mkToken END [], mkToken RBracket '']''] RParen = Inl InvalidExpectedEnd \<and>
   parseList2 [mkToken END [], mkToken RBracket '']''] RParen = Inl InvalidExpectedEnd \<and>
   func2jsfunc ''SUM'' = JsString ''sumConditionalOccurrences'' \<and>
   parseFunctionCall2 ''SUM'' [mkToken END [], mkToken RParen '')'', mkToken LParen ''(''] =
     Inr (''sumConditionalOccurrences()'', [mkToken END []]) \<and>
   parseExpression2_loop
     [mkToken END [], mkToken RParen '')'', mkToken LParen ''('', mkToken Indent ''SUM''] END [] =
     parseExpression2_end [mkToken END []] END ''sumConditionalOccurrences()'' \<and>
   parseExpression_loop [mkToken END [], mkToken RBracket '']'', mkToken LBracket ''[''] END [] =
     parseExpression_end [mkToken END []] END ''[]''"
proof -
  have f: "func2jsfunc ''SUM'' = JsString ''sumConditionalOccurrences''" by code_simp
  from empty_list_translation
    [of "mkToken RBracket '']''" RBracket "[mkToken END []]" RParen
        "[mkToken END [], mkToken RBracket '']'']" "''SUM''" "''sumConditionalOccurrences''"
        "mkToken LParen ''(''" "mkToken RParen '')''" "mkToken Indent ''SUM''" END "[]"
        "mkToken LBracket ''[''" "mkToken RBracket '']''"] f
  show ?thesis by (simp add: mkToken_def)
qed




end
